theory Spec2Isabelle
  imports Complex_Main "HOL-Library.Word" "HOL-Library.Sublist"
begin

section \<open>Content signature validator (src/media/utils/file-validator.ts)\<close>

text \<open>
  A \<open>Buffer\<close> is a list of bytes. A \<open>FileSignature\<close> has a MIME type, the signature bytes
  and an optional offset; the loops destructure it with \<open>offset = 0\<close> as the default.
\<close>

type_synonym byte = "8 word"

record FileSignature =
  sig_mimeType :: string
  sig_signature :: "byte list"
  sig_offset :: "nat option"

definition FILE_SIGNATURES :: "FileSignature list" where
  "FILE_SIGNATURES =
    [\<lparr>sig_mimeType = ''image/jpeg'', sig_signature = [0xFF, 0xD8, 0xFF], sig_offset = None\<rparr>,
     \<lparr>sig_mimeType = ''image/png'',
      sig_signature = [0x89, 0x50, 0x4E, 0x47, 0x0D, 0x0A, 0x1A, 0x0A], sig_offset = None\<rparr>,
     \<lparr>sig_mimeType = ''image/gif'', sig_signature = [0x47, 0x49, 0x46, 0x38], sig_offset = None\<rparr>,
     \<lparr>sig_mimeType = ''image/webp'', sig_signature = [0x52, 0x49, 0x46, 0x46], sig_offset = None\<rparr>,
     \<lparr>sig_mimeType = ''application/pdf'', sig_signature = [0x25, 0x50, 0x44, 0x46],
      sig_offset = None\<rparr>,
     \<lparr>sig_mimeType = ''application/msword'',
      sig_signature = [0xD0, 0xCF, 0x11, 0xE0, 0xA1, 0xB1, 0x1A, 0xE1], sig_offset = None\<rparr>,
     \<lparr>sig_mimeType = ''application/vnd.openxmlformats-officedocument'',
      sig_signature = [0x50, 0x4B, 0x03, 0x04], sig_offset = None\<rparr>,
     \<lparr>sig_mimeType = ''audio/mpeg'', sig_signature = [0x49, 0x44, 0x33], sig_offset = None\<rparr>,
     \<lparr>sig_mimeType = ''video/mp4'',
      sig_signature = [0x00, 0x00, 0x00, 0x18, 0x66, 0x74, 0x79, 0x70], sig_offset = Some 4\<rparr>,
     \<lparr>sig_mimeType = ''application/zip'', sig_signature = [0x50, 0x4B, 0x03, 0x04],
      sig_offset = None\<rparr>,
     \<lparr>sig_mimeType = ''application/x-rar-compressed'',
      sig_signature = [0x52, 0x61, 0x72, 0x21, 0x1A, 0x07], sig_offset = None\<rparr>]"

text \<open>
  The inner loop \<open>for (i = 0; i < signature.length; i++)\<close>: \<open>pos\<close> is \<open>offset + i\<close> and the
  list is the rest of the signature. A read past the end of a JavaScript buffer gives
  \<open>undefined\<close>, which differs from every signature byte.
\<close>

fun bytesMatch :: "byte list \<Rightarrow> nat \<Rightarrow> byte list \<Rightarrow> bool" where
  "bytesMatch buffer pos [] = True"
| "bytesMatch buffer pos (s # ss) =
     (if pos < length buffer \<and> buffer ! pos = s then bytesMatch buffer (Suc pos) ss else False)"

text \<open>One turn of the outer loop: the length guard (\<open>continue\<close>), then the byte comparison.\<close>

definition signatureMatches :: "byte list \<Rightarrow> FileSignature \<Rightarrow> bool" where
  "signatureMatches buffer entry =
     (let offset = (case sig_offset entry of None \<Rightarrow> 0 | Some off \<Rightarrow> off);
          signature = sig_signature entry
      in if length buffer < offset + length signature then False
         else bytesMatch buffer offset signature)"

text \<open>\<open>claimedMimeType.startsWith(sig.mimeType)\<close>\<close>

definition startsWith :: "string \<Rightarrow> string \<Rightarrow> bool" where
  "startsWith s p = prefix p s"

text \<open>The loop of \<open>validateFileContent\<close> over the expected signatures.\<close>

fun validateLoop :: "byte list \<Rightarrow> FileSignature list \<Rightarrow> bool" where
  "validateLoop buffer [] = False"
| "validateLoop buffer (entry # rest) =
     (if signatureMatches buffer entry then True else validateLoop buffer rest)"

text \<open>\<open>None\<close> is a missing buffer (\<open>!buffer\<close>).\<close>

definition validateFileContent :: "byte list option \<Rightarrow> string \<Rightarrow> bool" where
  "validateFileContent buffer claimedMimeType =
     (case buffer of
        None \<Rightarrow> False
      | Some b \<Rightarrow>
          if length b < 8 then False
          else
            let expectedSignatures =
                  filter (\<lambda>entry. startsWith claimedMimeType (sig_mimeType entry)) FILE_SIGNATURES
            in if length expectedSignatures = 0 then True
               else validateLoop b expectedSignatures)"

text \<open>The loop of \<open>detectMimeType\<close> over the whole table; \<open>None\<close> is \<open>undefined\<close>.\<close>

fun detectLoop :: "byte list \<Rightarrow> FileSignature list \<Rightarrow> string option" where
  "detectLoop buffer [] = None"
| "detectLoop buffer (entry # rest) =
     (if signatureMatches buffer entry then Some (sig_mimeType entry)
      else detectLoop buffer rest)"

definition detectMimeType :: "byte list option \<Rightarrow> string option" where
  "detectMimeType buffer =
     (case buffer of
        None \<Rightarrow> None
      | Some b \<Rightarrow> if length b < 8 then None else detectLoop b FILE_SIGNATURES)"

text \<open>
  The words of the specification, for comparison with the loops above: the entries
  selected for a claimed type, and a signature being equal to the buffer contents at the
  entry's offset.
\<close>

definition selectedEntries :: "string \<Rightarrow> FileSignature list" where
  "selectedEntries claimedMimeType =
     filter (\<lambda>entry. prefix (sig_mimeType entry) claimedMimeType) FILE_SIGNATURES"

definition signatureEqualsAt :: "byte list \<Rightarrow> FileSignature \<Rightarrow> bool" where
  "signatureEqualsAt buffer entry =
     (take (length (sig_signature entry))
        (drop (case sig_offset entry of None \<Rightarrow> 0 | Some off \<Rightarrow> off) buffer)
      = sig_signature entry)"

section \<open>JavaScript numbers\<close>

text \<open>
  A JavaScript \<open>number\<close> is an IEEE 754 double: \<open>NaN\<close>, an infinity, or a finite value,
  held here as the real number it denotes. The two zeros are one value: they differ only
  in the sign of a quotient by zero, and the engine divides by a truthy number only.

  \<open>binary64 x\<close> is the double nearest to the real \<open>x\<close>, ties to the even significand:
  \<open>binade x\<close> is the exponent of \<open>x\<close> (at least \<open>-1022\<close>, where the subnormal numbers
  begin), \<open>ulp x\<close> the spacing of the doubles there (a significand of 53 bits), and \<open>x\<close>
  is rounded to a multiple of it. \<open>toNumber\<close> adds the overflow to an infinity; it is
  the result of every arithmetic operation on finite operands.
\<close>

definition roundHalfEven :: "real \<Rightarrow> int" where
  "roundHalfEven y =
     (let f = \<lfloor>y\<rfloor>
      in if y - of_int f < 1 / 2 then f
         else if y - of_int f > 1 / 2 then f + 1
         else if even f then f else f + 1)"

definition binade :: "real \<Rightarrow> int" where
  "binade x = max \<lfloor>log 2 \<bar>x\<bar>\<rfloor> (- 1022)"

definition ulp :: "real \<Rightarrow> real" where
  "ulp x = 2 powi (binade x - 52)"

definition binary64 :: "real \<Rightarrow> real" where
  "binary64 x = (if x = 0 then 0 else ulp x * of_int (roundHalfEven (x / ulp x)))"

datatype jsnumber = NaN | Finite real | PosInfinity | NegInfinity

definition toNumber :: "real \<Rightarrow> jsnumber" where
  "toNumber x =
     (let r = binary64 x
      in if r \<ge> 2 ^ 1024 then PosInfinity
         else if r \<le> - (2 ^ 1024) then NegInfinity
         else Finite r)"

text \<open>\<open>a - b\<close>, \<open>a * b\<close> and \<open>a / b\<close>.\<close>

fun jsSub :: "jsnumber \<Rightarrow> jsnumber \<Rightarrow> jsnumber" where
  "jsSub (Finite a) (Finite b) = toNumber (a - b)"
| "jsSub NaN _ = NaN"
| "jsSub _ NaN = NaN"
| "jsSub PosInfinity PosInfinity = NaN"
| "jsSub NegInfinity NegInfinity = NaN"
| "jsSub PosInfinity _ = PosInfinity"
| "jsSub NegInfinity _ = NegInfinity"
| "jsSub (Finite a) PosInfinity = NegInfinity"
| "jsSub (Finite a) NegInfinity = PosInfinity"

definition infinityOf :: "bool \<Rightarrow> jsnumber" where
  "infinityOf positive = (if positive then PosInfinity else NegInfinity)"

fun jsMul :: "jsnumber \<Rightarrow> jsnumber \<Rightarrow> jsnumber" where
  "jsMul (Finite a) (Finite b) = toNumber (a * b)"
| "jsMul NaN _ = NaN"
| "jsMul _ NaN = NaN"
| "jsMul (Finite a) PosInfinity = (if a = 0 then NaN else infinityOf (a > 0))"
| "jsMul (Finite a) NegInfinity = (if a = 0 then NaN else infinityOf (a < 0))"
| "jsMul PosInfinity (Finite b) = (if b = 0 then NaN else infinityOf (b > 0))"
| "jsMul NegInfinity (Finite b) = (if b = 0 then NaN else infinityOf (b < 0))"
| "jsMul PosInfinity PosInfinity = PosInfinity"
| "jsMul NegInfinity NegInfinity = PosInfinity"
| "jsMul PosInfinity NegInfinity = NegInfinity"
| "jsMul NegInfinity PosInfinity = NegInfinity"

fun jsDiv :: "jsnumber \<Rightarrow> jsnumber \<Rightarrow> jsnumber" where
  "jsDiv (Finite a) (Finite b) =
     (if b = 0 then (if a = 0 then NaN else infinityOf (a > 0)) else toNumber (a / b))"
| "jsDiv NaN _ = NaN"
| "jsDiv _ NaN = NaN"
| "jsDiv (Finite a) _ = Finite 0"
| "jsDiv PosInfinity (Finite b) = infinityOf (b \<ge> 0)"
| "jsDiv NegInfinity (Finite b) = infinityOf (b < 0)"
| "jsDiv _ _ = NaN"

text \<open>\<open>a < b\<close> (and \<open>b > a\<close>): false when either side is \<open>NaN\<close>.\<close>

fun jsLess :: "jsnumber \<Rightarrow> jsnumber \<Rightarrow> bool" where
  "jsLess (Finite a) (Finite b) = (a < b)"
| "jsLess NaN _ = False"
| "jsLess _ NaN = False"
| "jsLess _ NegInfinity = False"
| "jsLess PosInfinity _ = False"
| "jsLess NegInfinity _ = True"
| "jsLess (Finite a) PosInfinity = True"

text \<open>\<open>Math.abs\<close>, \<open>Math.ceil\<close>, \<open>Math.min\<close> of two numbers, \<open>isNaN\<close>, and truthiness.\<close>

fun Math_abs :: "jsnumber \<Rightarrow> jsnumber" where
  "Math_abs (Finite a) = Finite \<bar>a\<bar>"
| "Math_abs NaN = NaN"
| "Math_abs _ = PosInfinity"

fun Math_ceil :: "jsnumber \<Rightarrow> jsnumber" where
  "Math_ceil (Finite a) = Finite (of_int \<lceil>a\<rceil>)"
| "Math_ceil n = n"

fun Math_min :: "jsnumber \<Rightarrow> jsnumber \<Rightarrow> jsnumber" where
  "Math_min NaN _ = NaN"
| "Math_min _ NaN = NaN"
| "Math_min a b = (if jsLess b a then b else a)"

fun isNaN :: "jsnumber \<Rightarrow> bool" where
  "isNaN NaN = True"
| "isNaN _ = False"

fun truthyNumber :: "jsnumber \<Rightarrow> bool" where
  "truthyNumber NaN = False"
| "truthyNumber (Finite a) = (a \<noteq> 0)"
| "truthyNumber _ = True"

section \<open>Data model\<close>

text \<open>
  \<open>MediaStatus\<close> (common/types/media.types.ts, here src/unnamed/part_008) and the error
  classes the engine raises (common/errors/application-error.ts, here
  src/unnamed/part_009), by kind; messages and contexts are left out.
  \<open>OtherError\<close> is any thrown value that is not one of the four classes.

  A size is a finite JavaScript \<open>number\<close>, held as the real number it denotes; the
  arithmetic on sizes rounds (\<open>jsSub\<close>, \<open>jsMul\<close>). A \<open>Date\<close> is a number of milliseconds.
\<close>

datatype MediaStatus = Pending | Uploaded | Validated | Invalid | Failed

datatype error = ValidationError | NotFoundError | StorageError | DatabaseError | OtherError

type_synonym date = nat

record UploadRequestDto =
  req_fileName :: string
  req_mimeType :: string
  req_size :: real

record UploadResponseDto =
  up_uploadId :: string
  up_url :: string
  up_expires :: nat

record FileMetadataDto =
  dto_id :: string
  dto_originalName :: string
  dto_mimeType :: string
  dto_size :: real
  dto_status :: MediaStatus
  dto_uploadedAt :: "date option"
  dto_url :: "string option"

record MediaEntity =
  me_id :: string
  me_originalName :: string
  me_mimeType :: string
  me_size :: real
  me_status :: MediaStatus
  me_key :: string
  me_bucket :: string
  me_createdAt :: "date option"
  me_updatedAt :: "date option"
  me_uploadedAt :: "date option"

record StorageFileMetadata =
  sm_id :: string
  sm_originalName :: string
  sm_mimeType :: string
  sm_size :: real
  sm_key :: string
  sm_bucket :: string
  sm_uploadedAt :: "date option"
  sm_status :: MediaStatus

record StorageUploadResponse =
  sur_uploadId :: string
  sur_url :: string
  sur_expires :: nat

record UploadConfig =
  allowedMimeTypes :: "string list"
  maxFileSize :: real

subsection \<open>Mappers (media/mappers/media.mapper.ts, media/mappers/storage.mapper.ts)\<close>

text \<open>
  \<open>toMediaEntity\<close> evaluates \<open>new Date()\<close> twice and \<open>toMediaEntityFromStorage\<close> once; the
  readings are parameters. \<open>toMediaEntityFromStorage\<close> returns an object with no
  \<open>createdAt\<close> property.
\<close>

definition toMediaEntity :: "date \<Rightarrow> date \<Rightarrow> UploadRequestDto \<Rightarrow> string \<Rightarrow> MediaEntity" where
  "toMediaEntity now0 now1 dto ident =
     \<lparr>me_id = ident, me_originalName = req_fileName dto, me_mimeType = req_mimeType dto,
      me_size = req_size dto, me_status = Pending, me_key = '''', me_bucket = '''',
      me_createdAt = Some now0, me_updatedAt = Some now1, me_uploadedAt = None\<rparr>"

definition toMediaEntityFromStorage :: "date \<Rightarrow> StorageFileMetadata \<Rightarrow> MediaEntity" where
  "toMediaEntityFromStorage now metadata =
     \<lparr>me_id = sm_id metadata, me_originalName = sm_originalName metadata,
      me_mimeType = sm_mimeType metadata, me_size = sm_size metadata,
      me_status = sm_status metadata, me_key = sm_key metadata, me_bucket = sm_bucket metadata,
      me_createdAt = None, me_updatedAt = Some now, me_uploadedAt = sm_uploadedAt metadata\<rparr>"

definition MediaMapper_toFileMetadataDto :: "MediaEntity \<Rightarrow> FileMetadataDto" where
  "MediaMapper_toFileMetadataDto entity =
     \<lparr>dto_id = me_id entity, dto_originalName = me_originalName entity,
      dto_mimeType = me_mimeType entity, dto_size = me_size entity,
      dto_status = me_status entity, dto_uploadedAt = me_uploadedAt entity, dto_url = None\<rparr>"

text \<open>\<open>id || ''\<close>: a missing or empty id gives the empty string.\<close>

definition toStorageMetadata :: "UploadRequestDto \<Rightarrow> string option \<Rightarrow> StorageFileMetadata" where
  "toStorageMetadata dto ident =
     \<lparr>sm_id = (case ident of None \<Rightarrow> '''' | Some i \<Rightarrow> i), sm_originalName = req_fileName dto,
      sm_mimeType = req_mimeType dto, sm_size = req_size dto, sm_key = '''', sm_bucket = '''',
      sm_uploadedAt = None, sm_status = Pending\<rparr>"

definition toUploadResponseDto :: "StorageUploadResponse \<Rightarrow> UploadResponseDto" where
  "toUploadResponseDto response =
     \<lparr>up_uploadId = sur_uploadId response, up_url = sur_url response,
      up_expires = sur_expires response\<rparr>"

text \<open>
  \<open>StorageMapper.toFileMetadataDto\<close> is declared on \<open>StorageFileMetadata\<close>; the service
  passes it a \<open>MediaEntity\<close>, which has every field it reads.
\<close>

definition StorageMapper_toFileMetadataDto :: "MediaEntity \<Rightarrow> string option \<Rightarrow> FileMetadataDto" where
  "StorageMapper_toFileMetadataDto metadata url =
     \<lparr>dto_id = me_id metadata, dto_originalName = me_originalName metadata,
      dto_mimeType = me_mimeType metadata, dto_size = me_size metadata,
      dto_status = me_status metadata, dto_uploadedAt = me_uploadedAt metadata, dto_url = url\<rparr>"

subsection \<open>Search filter, query and page\<close>

text \<open>
  The page, the limit, the sizes and the counts are JavaScript numbers. \<open>JsDate s\<close> stands
  for \<open>new Date(s)\<close>, left uninterpreted. At run time \<open>filter.status\<close> is whatever string
  the query parameter held.
\<close>

datatype JsDate = JsDate string

datatype SortOrder = Asc | Desc

record MediaFilter =
  f_status :: "string option"
  f_mimeType :: "string option"
  f_fileName :: "string option"
  f_startDate :: "JsDate option"
  f_endDate :: "JsDate option"
  f_minSize :: "jsnumber option"
  f_maxSize :: "jsnumber option"
  f_limit :: "jsnumber option"
  f_page :: "jsnumber option"
  f_sortBy :: "string option"
  f_sortOrder :: "SortOrder option"

text \<open>
  The query object: each field is present or absent; \<open>createdAt\<close> and \<open>size\<close> hold the
  pair \<open>($gte, $lte)\<close>, \<open>originalName\<close> the case-insensitive regular expression.
\<close>

record MongoQuery =
  q_status :: "string option"
  q_mimeType :: "string option"
  q_originalName :: "string option"
  q_createdAt :: "(JsDate option \<times> JsDate option) option"
  q_size :: "(jsnumber option \<times> jsnumber option) option"

record QueryOptions =
  o_limit :: jsnumber
  o_skip :: jsnumber
  o_sort :: "string \<times> int"

record Pagination =
  pg_currentPage :: jsnumber
  pg_totalPages :: jsnumber
  pg_totalItems :: jsnumber
  pg_limit :: jsnumber
  pg_hasNextPage :: bool
  pg_hasPreviousPage :: bool

record PaginatedResultDto =
  res_items :: "FileMetadataDto list"
  res_pagination :: Pagination

section \<open>Collaborators and state\<close>

text \<open>
  The \<open>StorageProvider\<close> interface (storage/interfaces/storage.interface.ts): each method
  returns a value (\<open>Inr\<close>) or throws (\<open>Inl\<close>).
\<close>

record StorageProvider =
  sp_getUploadUrl :: "StorageFileMetadata \<Rightarrow> error + StorageUploadResponse"
  sp_verifyUpload :: "string \<Rightarrow> error + bool"
  sp_getMetadata :: "string \<Rightarrow> error + StorageFileMetadata"
  sp_getDownloadUrl :: "string \<Rightarrow> error + string"
  sp_deleteFile :: "string \<Rightarrow> error + bool"
  sp_validateFileContent :: "string \<Rightarrow> string \<Rightarrow> error + bool"

text \<open>
  \<open>S3StorageProvider.validateFileContent\<close> (storage/providers/s3/s3-storage.provider.ts),
  given the outcome of \<open>getMetadata\<close> and of fetching and reading the first bytes of the
  object (\<open>Inr None\<close>: the response has no body). Its \<open>catch\<close> turns every failure into
  \<open>false\<close>, so it never throws.
\<close>

definition S3_validateFileContent :: "error + StorageFileMetadata \<Rightarrow> error + byte list option
                                       \<Rightarrow> string \<Rightarrow> error + bool" where
  "S3_validateFileContent metadataResult bodyResult expectedMimeType =
     (case metadataResult of
        Inl e \<Rightarrow> Inr False
      | Inr metadata \<Rightarrow>
          (case bodyResult of
             Inl e \<Rightarrow> Inr False
           | Inr None \<Rightarrow> Inr False
           | Inr (Some buffer) \<Rightarrow> Inr (validateFileContent (Some buffer) expectedMimeType)))"

text \<open>
  What one engine operation reads from outside: the storage provider, the value of
  \<open>randomUUID()\<close>, the k-th reading of \<open>new Date()\<close>, whether the k-th repository call of
  the operation fails (both counted from 0 in the order the operation makes them), and
  the answers of the database to \<open>countDocuments\<close> and to the \<open>find\<close> cursor.
\<close>

record Env =
  storageProvider :: StorageProvider
  randomUUID :: string
  newDate :: "nat \<Rightarrow> date"
  dbFails :: "nat \<Rightarrow> bool"
  mongoCount :: "MongoQuery \<Rightarrow> jsnumber"
  mongoFind :: "MongoQuery \<Rightarrow> QueryOptions \<Rightarrow> MediaEntity list"

text \<open>
  The calls made to the two collaborators, in order. A repository call that fails is
  logged as \<open>RepoFailed\<close>; \<open>RepoSave\<close> carries the document that was written.
\<close>

datatype Event =
    RepoSave MediaEntity
  | RepoFindById string
  | RepoDeleteById string
  | RepoCount MongoQuery
  | RepoFind MongoQuery QueryOptions
  | RepoFailed
  | StorageGetUploadUrl StorageFileMetadata
  | StorageVerifyUpload string
  | StorageGetMetadata string
  | StorageGetDownloadUrl string
  | StorageDeleteFile string
  | StorageValidateFileContent string string

record World =
  db :: "string \<rightharpoonup> MediaEntity"
  trace :: "Event list"

definition emptyWorld :: World where
  "emptyWorld = \<lparr>db = Map.empty, trace = []\<rparr>"

definition logCall :: "Event \<Rightarrow> World \<Rightarrow> World" where
  "logCall ev w = w\<lparr>trace := trace w @ [ev]\<rparr>"

subsection \<open>MediaRepository (database/repositories/mongodb/media.repository.ts)\<close>

text \<open>
  The source of the repository follows the S3 provider in
  src/storage/providers/s3/s3-storage.provider.ts, from line 247.

  \<open>save\<close> sets \<open>createdAt\<close> only when the entity has none, sets \<open>updatedAt\<close>, and writes
  every field of the document with \<open>$set\<close> and \<open>upsert\<close>. It mutates the entity it was
  given: the caller goes on with the returned entity. A failure is a \<open>DatabaseError\<close>.
\<close>

definition save :: "date \<Rightarrow> bool \<Rightarrow> MediaEntity \<Rightarrow> World \<Rightarrow> (error + MediaEntity) \<times> World" where
  "save now fails entity w =
     (if fails then (Inl DatabaseError, logCall RepoFailed w)
      else
        let entity' = entity\<lparr>me_createdAt :=
                               (case me_createdAt entity of None \<Rightarrow> Some now | Some c \<Rightarrow> Some c),
                             me_updatedAt := Some now\<rparr>
        in (Inr entity',
            logCall (RepoSave entity') (w\<lparr>db := (db w)(me_id entity' \<mapsto> entity')\<rparr>)))"

definition findById :: "bool \<Rightarrow> string \<Rightarrow> World \<Rightarrow> (error + MediaEntity option) \<times> World" where
  "findById fails ident w =
     (if fails then (Inl DatabaseError, logCall RepoFailed w)
      else (Inr (db w ident), logCall (RepoFindById ident) w))"

text \<open>\<open>deleteById\<close> returns \<open>deletedCount > 0\<close>.\<close>

definition deleteById :: "bool \<Rightarrow> string \<Rightarrow> World \<Rightarrow> (error + bool) \<times> World" where
  "deleteById fails ident w =
     (if fails then (Inl DatabaseError, logCall RepoFailed w)
      else (Inr (db w ident \<noteq> None),
            logCall (RepoDeleteById ident) (w\<lparr>db := (db w)(ident := None)\<rparr>)))"

text \<open>
  \<open>count\<close> and \<open>find\<close> of the repository (named \<open>count_repo\<close> and \<open>find_repo\<close>, the
  plain names being those of list functions). \<open>find\<close> hands the limit, the skip and the
  sort of the options to the cursor; what the cursor and \<open>countDocuments\<close> return is the
  database's answer.
\<close>

definition count_repo :: "Env \<Rightarrow> bool \<Rightarrow> MongoQuery \<Rightarrow> World \<Rightarrow> (error + jsnumber) \<times> World" where
  "count_repo env fails query w =
     (if fails then (Inl DatabaseError, logCall RepoFailed w)
      else (Inr (mongoCount env query), logCall (RepoCount query) w))"

definition find_repo :: "Env \<Rightarrow> bool \<Rightarrow> MongoQuery \<Rightarrow> QueryOptions \<Rightarrow> World
                      \<Rightarrow> (error + MediaEntity list) \<times> World" where
  "find_repo env fails query options w =
     (if fails then (Inl DatabaseError, logCall RepoFailed w)
      else (Inr (mongoFind env query options), logCall (RepoFind query options) w))"

section \<open>Upload lifecycle engine (MediaService)\<close>

text \<open>
  The service is media/services/media.service.ts, here src/unnamed/part_005.

  Every operation takes the state and returns its result, \<open>Inl\<close> for a thrown error, with
  the new state. Logging is not modelled.
\<close>

definition validateUploadRequest :: "UploadConfig \<Rightarrow> UploadRequestDto \<Rightarrow> error + unit" where
  "validateUploadRequest cfg request =
     (if req_mimeType request \<notin> set (allowedMimeTypes cfg) then Inl ValidationError
      else if req_size request > maxFileSize cfg then Inl ValidationError
      else Inr ())"

text \<open>
  The tail shared by \<open>initiateUpload\<close> and \<open>updateFile\<close>: the \<open>try\<close> block around
  \<open>getUploadUrl\<close>, whose \<open>catch\<close> wraps whatever was thrown in a \<open>StorageError\<close>.
\<close>

definition requestUploadUrl :: "Env \<Rightarrow> StorageFileMetadata \<Rightarrow> World
                                 \<Rightarrow> (error + UploadResponseDto) \<times> World" where
  "requestUploadUrl env storageMetadata w =
     (let w' = logCall (StorageGetUploadUrl storageMetadata) w
      in case sp_getUploadUrl (storageProvider env) storageMetadata of
           Inl e \<Rightarrow> (Inl StorageError, w')
         | Inr uploadResponse \<Rightarrow> (Inr (toUploadResponseDto uploadResponse), w'))"

definition initiateUpload :: "UploadConfig \<Rightarrow> Env \<Rightarrow> UploadRequestDto \<Rightarrow> World
                               \<Rightarrow> (error + UploadResponseDto) \<times> World" where
  "initiateUpload cfg env request w =
     (case validateUploadRequest cfg request of
        Inl e \<Rightarrow> (Inl e, w)
      | Inr _ \<Rightarrow>
          let fileId = randomUUID env;
              storageMetadata = toStorageMetadata request (Some fileId);
              mediaEntity = toMediaEntity (newDate env 0) (newDate env 1) request fileId
          in (case save (newDate env 2) (dbFails env 0) mediaEntity w of
                (Inl e, w1) \<Rightarrow> (Inl e, w1)
              | (Inr _, w1) \<Rightarrow> requestUploadUrl env storageMetadata w1))"

text \<open>
  \<open>validateUploadedFile\<close>: the size check; the MIME comparison only logs a warning. The
  literal \<open>0.1\<close> is the double nearest to one tenth, and the difference and the product
  are rounded.
\<close>

definition validateUploadedFile :: "MediaEntity \<Rightarrow> StorageFileMetadata \<Rightarrow> error + unit" where
  "validateUploadedFile original uploaded =
     (let sizeDifference = Math_abs (jsSub (Finite (me_size original)) (Finite (sm_size uploaded)));
          sizeTolerancePercent = toNumber (1 / 10);
          sizeTolerance = jsMul (Finite (me_size original)) sizeTolerancePercent
      in if jsLess sizeTolerance sizeDifference \<and> jsLess (Finite 1024) sizeDifference
         then Inl ValidationError
         else Inr ())"

text \<open>
  \<open>completeUpload\<close>, lines 123 to 150: content validation (a thrown error leaves
  \<open>isContentValid\<close> false), the final status, the second save, the download URL.
\<close>

definition completeUpload_finish :: "Env \<Rightarrow> string \<Rightarrow> MediaEntity \<Rightarrow> MediaEntity \<Rightarrow> World
                                      \<Rightarrow> (error + FileMetadataDto) \<times> World" where
  "completeUpload_finish env uploadId originalEntity mediaEntity w =
     (let w1 = logCall (StorageValidateFileContent uploadId (me_mimeType originalEntity)) w;
          isContentValid =
            (case sp_validateFileContent (storageProvider env) uploadId
                    (me_mimeType originalEntity) of
               Inl e \<Rightarrow> False
             | Inr b \<Rightarrow> b);
          mediaEntity1 = mediaEntity\<lparr>me_status := (if isContentValid then Validated else Invalid)\<rparr>
      in case save (newDate env 2) (dbFails env 2) mediaEntity1 w1 of
           (Inl e, w2) \<Rightarrow> (Inl e, w2)
         | (Inr mediaEntity2, w2) \<Rightarrow>
             if me_status mediaEntity2 = Validated then
               let w3 = logCall (StorageGetDownloadUrl uploadId) w2;
                   downloadUrl =
                     (case sp_getDownloadUrl (storageProvider env) uploadId of
                        Inl e \<Rightarrow> None
                      | Inr u \<Rightarrow> Some u)
               in (Inr (StorageMapper_toFileMetadataDto mediaEntity2 downloadUrl), w3)
             else (Inr (StorageMapper_toFileMetadataDto mediaEntity2 None), w2))"

text \<open>
  \<open>completeUpload\<close>, lines 118 to 122: the size check, the entity built from the storage
  metadata, status \<open>uploaded\<close>, the first save.
\<close>

definition completeUpload_reconcile :: "Env \<Rightarrow> string \<Rightarrow> MediaEntity \<Rightarrow> StorageFileMetadata
                                         \<Rightarrow> World \<Rightarrow> (error + FileMetadataDto) \<times> World" where
  "completeUpload_reconcile env uploadId originalEntity storageMetadata w =
     (case validateUploadedFile originalEntity storageMetadata of
        Inl e \<Rightarrow> (Inl e, w)
      | Inr _ \<Rightarrow>
          let mediaEntity =
                (toMediaEntityFromStorage (newDate env 0) storageMetadata)
                  \<lparr>me_originalName := me_originalName originalEntity, me_status := Uploaded\<rparr>
          in (case save (newDate env 1) (dbFails env 1) mediaEntity w of
                (Inl e, w1) \<Rightarrow> (Inl e, w1)
              | (Inr mediaEntity1, w1) \<Rightarrow>
                  completeUpload_finish env uploadId originalEntity mediaEntity1 w1))"

text \<open>
  \<open>completeUpload\<close>, lines 82 to 116: the record, the existence check (a thrown
  \<open>NotFoundError\<close> is rethrown, anything else becomes a \<open>StorageError\<close>), the metadata.
\<close>

definition completeUpload :: "Env \<Rightarrow> string \<Rightarrow> World \<Rightarrow> (error + FileMetadataDto) \<times> World" where
  "completeUpload env uploadId w =
     (case findById (dbFails env 0) uploadId w of
        (Inl e, w1) \<Rightarrow> (Inl e, w1)
      | (Inr None, w1) \<Rightarrow> (Inl NotFoundError, w1)
      | (Inr (Some originalEntity), w1) \<Rightarrow>
          let w2 = logCall (StorageVerifyUpload uploadId) w1
          in (case sp_verifyUpload (storageProvider env) uploadId of
                Inl e \<Rightarrow> (Inl (if e = NotFoundError then NotFoundError else StorageError), w2)
              | Inr False \<Rightarrow> (Inl NotFoundError, w2)
              | Inr True \<Rightarrow>
                  let w3 = logCall (StorageGetMetadata uploadId) w2
                  in (case sp_getMetadata (storageProvider env) uploadId of
                        Inl e \<Rightarrow> (Inl StorageError, w3)
                      | Inr storageMetadata \<Rightarrow>
                          completeUpload_reconcile env uploadId originalEntity storageMetadata
                            w3)))"

definition getFileMetadata :: "Env \<Rightarrow> string \<Rightarrow> World \<Rightarrow> (error + FileMetadataDto) \<times> World" where
  "getFileMetadata env fileId w =
     (case findById (dbFails env 0) fileId w of
        (Inl e, w1) \<Rightarrow> (Inl e, w1)
      | (Inr None, w1) \<Rightarrow> (Inl NotFoundError, w1)
      | (Inr (Some mediaEntity), w1) \<Rightarrow>
          if me_status mediaEntity = Validated then
            let w2 = logCall (StorageGetDownloadUrl fileId) w1;
                downloadUrl =
                  (case sp_getDownloadUrl (storageProvider env) fileId of
                     Inl e \<Rightarrow> None
                   | Inr u \<Rightarrow> Some u)
            in (Inr (StorageMapper_toFileMetadataDto mediaEntity downloadUrl), w2)
          else (Inr (StorageMapper_toFileMetadataDto mediaEntity None), w1))"

text \<open>\<open>deleteFile\<close>: a throw of the storage deletion leaves \<open>storageDeleted\<close> false.\<close>

definition deleteFile :: "Env \<Rightarrow> string \<Rightarrow> World \<Rightarrow> (error + bool) \<times> World" where
  "deleteFile env fileId w =
     (let w1 = logCall (StorageDeleteFile fileId) w;
          storageDeleted =
            (case sp_deleteFile (storageProvider env) fileId of Inl e \<Rightarrow> False | Inr b \<Rightarrow> b)
      in case deleteById (dbFails env 0) fileId w1 of
           (Inl e, w2) \<Rightarrow> (Inl e, w2)
         | (Inr dbDeleted, w2) \<Rightarrow> (Inr (storageDeleted \<and> dbDeleted), w2))"

definition updateFile :: "UploadConfig \<Rightarrow> Env \<Rightarrow> string \<Rightarrow> UploadRequestDto \<Rightarrow> World
                           \<Rightarrow> (error + UploadResponseDto) \<times> World" where
  "updateFile cfg env fileId request w =
     (case validateUploadRequest cfg request of
        Inl e \<Rightarrow> (Inl e, w)
      | Inr _ \<Rightarrow>
          (case findById (dbFails env 0) fileId w of
             (Inl e, w1) \<Rightarrow> (Inl e, w1)
           | (Inr None, w1) \<Rightarrow> (Inl NotFoundError, w1)
           | (Inr (Some existingFile), w1) \<Rightarrow>
               let w2 = logCall (StorageDeleteFile fileId) w1;
                   storageMetadata = toStorageMetadata request (Some fileId);
                   mediaEntity =
                     (toMediaEntity (newDate env 0) (newDate env 1) request fileId)
                       \<lparr>me_status := Pending\<rparr>
               in (case save (newDate env 2) (dbFails env 1) mediaEntity w2 of
                     (Inl e, w3) \<Rightarrow> (Inl e, w3)
                   | (Inr _, w3) \<Rightarrow> requestUploadUrl env storageMetadata w3)))"

subsection \<open>searchFiles\<close>

text \<open>A string that is present and not empty is truthy.\<close>

definition truthy :: "string option \<Rightarrow> bool" where
  "truthy s = (case s of None \<Rightarrow> False | Some v \<Rightarrow> v \<noteq> [])"

text \<open>
  The query object of \<open>searchFiles\<close>. A \<open>Date\<close> is an object, hence truthy when present;
  the sizes are tested against \<open>undefined\<close>.
\<close>

definition buildQuery :: "MediaFilter \<Rightarrow> MongoQuery" where
  "buildQuery fltr =
     \<lparr>q_status = (if truthy (f_status fltr) then f_status fltr else None),
      q_mimeType = (if truthy (f_mimeType fltr) then f_mimeType fltr else None),
      q_originalName = (if truthy (f_fileName fltr) then f_fileName fltr else None),
      q_createdAt =
        (if f_startDate fltr \<noteq> None \<or> f_endDate fltr \<noteq> None
         then Some (f_startDate fltr, f_endDate fltr) else None),
      q_size =
        (if f_minSize fltr \<noteq> None \<or> f_maxSize fltr \<noteq> None
         then Some (f_minSize fltr, f_maxSize fltr) else None)\<rparr>"

text \<open>The loop over the entities of the page: a failed download URL is left out.\<close>

fun searchLoop :: "Env \<Rightarrow> bool \<Rightarrow> MediaEntity list \<Rightarrow> World \<Rightarrow> FileMetadataDto list \<times> World" where
  "searchLoop env includeUrls [] w = ([], w)"
| "searchLoop env includeUrls (entity # rest) w =
     (let dto = MediaMapper_toFileMetadataDto entity
      in if includeUrls \<and> me_status entity = Validated then
           let w1 = logCall (StorageGetDownloadUrl (me_id entity)) w;
               dto1 = (case sp_getDownloadUrl (storageProvider env) (me_id entity) of
                         Inl e \<Rightarrow> dto
                       | Inr u \<Rightarrow> dto\<lparr>dto_url := Some u\<rparr>);
               (dtos, w2) = searchLoop env includeUrls rest w1
           in (dto1 # dtos, w2)
         else
           let (dtos, w2) = searchLoop env includeUrls rest w
           in (dto # dtos, w2))"

text \<open>
  \<open>filter.limit || 20\<close> and \<open>filter.page || 1\<close>: a missing value, 0 and \<open>NaN\<close> give the
  default. The difference, the product and the quotient are those of doubles.
\<close>

definition searchFiles :: "Env \<Rightarrow> MediaFilter \<Rightarrow> bool \<Rightarrow> World
                            \<Rightarrow> (error + PaginatedResultDto) \<times> World" where
  "searchFiles env fltr includeUrls w =
     (let limit = (case f_limit fltr of
                     None \<Rightarrow> Finite 20
                   | Some l \<Rightarrow> if truthyNumber l then l else Finite 20);
          page = (case f_page fltr of
                    None \<Rightarrow> Finite 1
                  | Some p \<Rightarrow> if truthyNumber p then p else Finite 1);
          skip = jsMul (jsSub page (Finite 1)) limit;
          sortField = (case f_sortBy fltr of
                         None \<Rightarrow> ''createdAt''
                       | Some s \<Rightarrow> if s = [] then ''createdAt'' else s);
          sortDirection = (if f_sortOrder fltr = Some Asc then 1 else - 1);
          query = buildQuery fltr
      in case count_repo env (dbFails env 0) query w of
           (Inl e, w1) \<Rightarrow> (Inl e, w1)
         | (Inr totalItems, w1) \<Rightarrow>
             let totalPages = Math_ceil (jsDiv totalItems limit);
                 options = \<lparr>o_limit = limit, o_skip = skip, o_sort = (sortField, sortDirection)\<rparr>
             in (case find_repo env (dbFails env 1) query options w1 of
                   (Inl e, w2) \<Rightarrow> (Inl e, w2)
                 | (Inr mediaEntities, w2) \<Rightarrow>
                     let (mediaDtos, w3) = searchLoop env includeUrls mediaEntities w2
                     in (Inr \<lparr>res_items = mediaDtos,
                              res_pagination =
                                \<lparr>pg_currentPage = page, pg_totalPages = totalPages,
                                 pg_totalItems = totalItems, pg_limit = limit,
                                 pg_hasNextPage = jsLess page totalPages,
                                 pg_hasPreviousPage = jsLess (Finite 1) page\<rparr>\<rparr>, w3)))"

subsection \<open>MediaController.searchFiles (media/controllers)\<close>

text \<open>
  The controller is src/unnamed/part_006.

  The query parameters as \<open>url.searchParams.get\<close> returns them (\<open>None\<close> for \<open>null\<close>); a
  parameter that is \<open>null\<close> or the empty string is falsy. The builtin \<open>parseInt(s, 10)\<close>
  is a parameter of the filter construction.
\<close>

record SearchParams =
  p_status :: "string option"
  p_mimeType :: "string option"
  p_fileName :: "string option"
  p_startDate :: "string option"
  p_endDate :: "string option"
  p_minSize :: "string option"
  p_maxSize :: "string option"
  p_includeUrls :: "string option"
  p_page :: "string option"
  p_limit :: "string option"
  p_sortBy :: "string option"
  p_sortOrder :: "string option"

definition controllerFilter :: "(string \<Rightarrow> jsnumber) \<Rightarrow> SearchParams \<Rightarrow> MediaFilter" where
  "controllerFilter parseInt params =
     \<lparr>f_status = (if truthy (p_status params) then p_status params else None),
      f_mimeType = (if truthy (p_mimeType params) then p_mimeType params else None),
      f_fileName = (if truthy (p_fileName params) then p_fileName params else None),
      f_startDate =
        (case p_startDate params of
           None \<Rightarrow> None
         | Some startDate \<Rightarrow> if startDate = [] then None else Some (JsDate startDate)),
      f_endDate =
        (case p_endDate params of
           None \<Rightarrow> None
         | Some endDate \<Rightarrow> if endDate = [] then None else Some (JsDate endDate)),
      f_minSize =
        (case p_minSize params of
           None \<Rightarrow> None
         | Some minSize \<Rightarrow> if minSize = [] then None else Some (parseInt minSize)),
      f_maxSize =
        (case p_maxSize params of
           None \<Rightarrow> None
         | Some maxSize \<Rightarrow> if maxSize = [] then None else Some (parseInt maxSize)),
      f_limit =
        (case p_limit params of
           None \<Rightarrow> Some (Finite 20)
         | Some limitStr \<Rightarrow>
             if limitStr = [] then Some (Finite 20)
             else (let parsedLimit = parseInt limitStr
                   in if \<not> isNaN parsedLimit \<and> jsLess (Finite 0) parsedLimit
                      then Some (Math_min parsedLimit (Finite 100)) else None)),
      f_page =
        (case p_page params of
           None \<Rightarrow> Some (Finite 1)
         | Some pageStr \<Rightarrow>
             if pageStr = [] then Some (Finite 1)
             else (let parsedPage = parseInt pageStr
                   in if \<not> isNaN parsedPage \<and> jsLess (Finite 0) parsedPage
                      then Some parsedPage else None)),
      f_sortBy =
        (case p_sortBy params of
           None \<Rightarrow> Some ''createdAt''
         | Some sortBy \<Rightarrow> if sortBy = [] then Some ''createdAt'' else Some sortBy),
      f_sortOrder =
        (if p_sortOrder params = Some ''asc'' then Some Asc
         else if p_sortOrder params = Some ''desc'' then Some Desc
         else Some Desc)\<rparr>"

definition MediaController_searchFiles :: "(string \<Rightarrow> jsnumber) \<Rightarrow> Env \<Rightarrow> SearchParams \<Rightarrow> World
                                            \<Rightarrow> (error + PaginatedResultDto) \<times> World" where
  "MediaController_searchFiles parseInt env params w =
     searchFiles env (controllerFilter parseInt params) (p_includeUrls params = Some ''true'') w"

text \<open>
  \<open>parseInt(s, 10)\<close>, for concrete runs, on strings of characters below U+0100: leading
  white space is skipped (of these characters: tab, line feed, vertical tab, form feed,
  carriage return, space and the no-break space U+00A0), a sign is read, then the longest
  run of decimal digits; no digit gives \<open>NaN\<close>. The result is the number nearest to the
  integer read, an infinity when it is out of range.
\<close>

definition isWhiteSpace :: "char \<Rightarrow> bool" where
  "isWhiteSpace c =
     (c \<in> set [CHR 0x09, CHR 0x0A, CHR 0x0B, CHR 0x0C, CHR 0x0D, CHR '' '', CHR 0xA0])"

definition isDigit :: "char \<Rightarrow> bool" where
  "isDigit c = (c \<in> set ''0123456789'')"

fun digitsValue :: "int \<Rightarrow> string \<Rightarrow> int" where
  "digitsValue acc [] = acc"
| "digitsValue acc (c # cs) = digitsValue (10 * acc + (int (of_char c) - 48)) cs"

definition parseInt10 :: "string \<Rightarrow> jsnumber" where
  "parseInt10 s =
     (let t = dropWhile isWhiteSpace s;
          sign = (case t of c # r \<Rightarrow> if c = CHR ''-'' then - 1 else 1 | [] \<Rightarrow> 1);
          u = (case t of c # r \<Rightarrow> if c = CHR ''-'' \<or> c = CHR ''+'' then r else t | [] \<Rightarrow> t);
          z = takeWhile isDigit u
      in if z = [] then NaN else toNumber (of_int (sign * digitsValue 0 z)))"

text \<open>
  The words of the specification for the page, the limit and the sort of a request: the
  parameter when it is a positive number, the limit capped at 100, and the defaults 1,
  20, \<open>createdAt\<close> and descending (\<open>-1\<close>).
\<close>

definition requestedPage :: "(string \<Rightarrow> jsnumber) \<Rightarrow> SearchParams \<Rightarrow> jsnumber" where
  "requestedPage parseInt params =
     (case p_page params of
        None \<Rightarrow> Finite 1
      | Some s \<Rightarrow>
          if s = [] then Finite 1
          else if jsLess (Finite 0) (parseInt s) then parseInt s else Finite 1)"

definition requestedLimit :: "(string \<Rightarrow> jsnumber) \<Rightarrow> SearchParams \<Rightarrow> jsnumber" where
  "requestedLimit parseInt params =
     (case p_limit params of
        None \<Rightarrow> Finite 20
      | Some s \<Rightarrow>
          if s = [] then Finite 20
          else if jsLess (Finite 0) (parseInt s) then Math_min (parseInt s) (Finite 100)
          else Finite 20)"

definition requestedSort :: "SearchParams \<Rightarrow> string \<times> int" where
  "requestedSort params =
     ((case p_sortBy params of
         None \<Rightarrow> ''createdAt''
       | Some s \<Rightarrow> if s = [] then ''createdAt'' else s),
      (if p_sortOrder params = Some ''asc'' then 1 else - 1))"

section \<open>Sequences of operations\<close>

text \<open>
  The requests the engine serves, and a run of requests from a given state, each with what
  the operation reads from outside. In a run the operations are made one after another:
  each starts on the state the one before it left when it returned or raised. Operations
  whose calls to the collaborators overlap in time are not runs in this sense; they are
  the tasks of the next section.
\<close>

datatype Request =
    InitiateUpload UploadRequestDto
  | CompleteUpload string
  | GetFileMetadata string
  | DeleteFile string
  | SearchFiles MediaFilter bool
  | UpdateFile string UploadRequestDto

fun perform :: "UploadConfig \<Rightarrow> Env \<Rightarrow> Request \<Rightarrow> World \<Rightarrow> World" where
  "perform cfg env (InitiateUpload request) w = snd (initiateUpload cfg env request w)"
| "perform cfg env (CompleteUpload uploadId) w = snd (completeUpload env uploadId w)"
| "perform cfg env (GetFileMetadata fileId) w = snd (getFileMetadata env fileId w)"
| "perform cfg env (DeleteFile fileId) w = snd (deleteFile env fileId w)"
| "perform cfg env (SearchFiles fltr includeUrls) w = snd (searchFiles env fltr includeUrls w)"
| "perform cfg env (UpdateFile fileId request) w = snd (updateFile cfg env fileId request w)"

fun run :: "UploadConfig \<Rightarrow> (Env \<times> Request) list \<Rightarrow> World \<Rightarrow> World" where
  "run cfg [] w = w"
| "run cfg ((env, request) # rest) w = run cfg rest (perform cfg env request w)"

text \<open>The statuses written by the saves of a trace, and those written for one id.\<close>

fun savedStatuses :: "Event list \<Rightarrow> MediaStatus list" where
  "savedStatuses [] = []"
| "savedStatuses (RepoSave entity # evs) = me_status entity # savedStatuses evs"
| "savedStatuses (ev # evs) = savedStatuses evs"

fun statusHistory :: "string \<Rightarrow> Event list \<Rightarrow> MediaStatus list" where
  "statusHistory ident [] = []"
| "statusHistory ident (RepoSave entity # evs) =
     (if me_id entity = ident then me_status entity # statusHistory ident evs
      else statusHistory ident evs)"
| "statusHistory ident (ev # evs) = statusHistory ident evs"

text \<open>The events an operation added to the trace.\<close>

definition newEvents :: "World \<Rightarrow> World \<Rightarrow> Event list" where
  "newEvents w w' = drop (length (trace w)) (trace w')"

text \<open>
  The transitions of the specification's state machine
  (\<open>pending \<rightarrow> uploaded \<rightarrow> {validated, invalid}\<close>, any state \<open>\<rightarrow> pending\<close>), and the
  same with any state \<open>\<rightarrow> uploaded\<close> added.
\<close>

definition specTransition :: "MediaStatus \<Rightarrow> MediaStatus \<Rightarrow> bool" where
  "specTransition s s' =
     (s' = Pending \<or> (s = Pending \<and> s' = Uploaded)
      \<or> (s = Uploaded \<and> (s' = Validated \<or> s' = Invalid)))"

definition engineTransition :: "MediaStatus \<Rightarrow> MediaStatus \<Rightarrow> bool" where
  "engineTransition s s' =
     (s' = Pending \<or> s' = Uploaded \<or> (s = Uploaded \<and> (s' = Validated \<or> s' = Invalid)))"

text \<open>
  The store agrees with the trace: the status of every stored record is the last status
  saved for its id.
\<close>

definition storeFollowsTrace :: "World \<Rightarrow> bool" where
  "storeFollowsTrace w =
     (\<forall>ident entity. db w ident = Some entity \<longrightarrow>
        statusHistory ident (trace w) \<noteq> [] \<and>
        last (statusHistory ident (trace w)) = me_status entity)"

section \<open>Operations that overlap\<close>

text \<open>
  The operations are asynchronous: an operation is suspended at each call to a
  collaborator, and calls of other operations can be made before it goes on. A task is an
  operation in progress: it has ended with a result, or it waits to make its next call;
  the call is made on the state of that moment and gives the rest of the task.

  \<open>await c k\<close> is \<open>const a = await c; k a\<close>. Each operation is written again as a task,
  with one \<open>await\<close> for each \<open>await\<close> of the source.
\<close>

datatype 'r Task = Ended 'r | Suspended "World \<Rightarrow> 'r Task \<times> World"

definition await :: "(World \<Rightarrow> 'a \<times> World) \<Rightarrow> ('a \<Rightarrow> 'r Task) \<Rightarrow> 'r Task" where
  "await c k = Suspended (\<lambda>w. case c w of (a, w') \<Rightarrow> (k a, w'))"

text \<open>A call to the storage provider: it is logged, and the provider's answer comes back.\<close>

definition storageCall :: "Event \<Rightarrow> 'a \<Rightarrow> World \<Rightarrow> 'a \<times> World" where
  "storageCall ev answer w = (answer, logCall ev w)"

definition requestUploadUrl_task :: "Env \<Rightarrow> StorageFileMetadata
                                      \<Rightarrow> (error + UploadResponseDto) Task" where
  "requestUploadUrl_task env storageMetadata =
     await (storageCall (StorageGetUploadUrl storageMetadata)
             (sp_getUploadUrl (storageProvider env) storageMetadata))
       (\<lambda>answer. case answer of
          Inl e \<Rightarrow> Ended (Inl StorageError)
        | Inr uploadResponse \<Rightarrow> Ended (Inr (toUploadResponseDto uploadResponse)))"

definition initiateUpload_task :: "UploadConfig \<Rightarrow> Env \<Rightarrow> UploadRequestDto
                                    \<Rightarrow> (error + UploadResponseDto) Task" where
  "initiateUpload_task cfg env request =
     (case validateUploadRequest cfg request of
        Inl e \<Rightarrow> Ended (Inl e)
      | Inr _ \<Rightarrow>
          let fileId = randomUUID env;
              storageMetadata = toStorageMetadata request (Some fileId);
              mediaEntity = toMediaEntity (newDate env 0) (newDate env 1) request fileId
          in await (save (newDate env 2) (dbFails env 0) mediaEntity)
               (\<lambda>saved. case saved of
                  Inl e \<Rightarrow> Ended (Inl e)
                | Inr _ \<Rightarrow> requestUploadUrl_task env storageMetadata))"

text \<open>\<open>completeUpload\<close>, lines 123 to 150, then lines 118 to 122, then lines 82 to 116.\<close>

definition completeUpload_finish_task :: "Env \<Rightarrow> string \<Rightarrow> MediaEntity \<Rightarrow> MediaEntity
                                           \<Rightarrow> (error + FileMetadataDto) Task" where
  "completeUpload_finish_task env uploadId originalEntity mediaEntity =
     await (storageCall (StorageValidateFileContent uploadId (me_mimeType originalEntity))
             (sp_validateFileContent (storageProvider env) uploadId (me_mimeType originalEntity)))
       (\<lambda>answer.
          let isContentValid = (case answer of Inl e \<Rightarrow> False | Inr b \<Rightarrow> b);
              mediaEntity1 =
                mediaEntity\<lparr>me_status := (if isContentValid then Validated else Invalid)\<rparr>
          in await (save (newDate env 2) (dbFails env 2) mediaEntity1)
               (\<lambda>saved. case saved of
                  Inl e \<Rightarrow> Ended (Inl e)
                | Inr mediaEntity2 \<Rightarrow>
                    if me_status mediaEntity2 = Validated then
                      await (storageCall (StorageGetDownloadUrl uploadId)
                              (sp_getDownloadUrl (storageProvider env) uploadId))
                        (\<lambda>answer.
                           let downloadUrl = (case answer of Inl e \<Rightarrow> None | Inr u \<Rightarrow> Some u)
                           in Ended (Inr (StorageMapper_toFileMetadataDto mediaEntity2
                                            downloadUrl)))
                    else Ended (Inr (StorageMapper_toFileMetadataDto mediaEntity2 None))))"

definition completeUpload_reconcile_task :: "Env \<Rightarrow> string \<Rightarrow> MediaEntity \<Rightarrow> StorageFileMetadata
                                              \<Rightarrow> (error + FileMetadataDto) Task" where
  "completeUpload_reconcile_task env uploadId originalEntity storageMetadata =
     (case validateUploadedFile originalEntity storageMetadata of
        Inl e \<Rightarrow> Ended (Inl e)
      | Inr _ \<Rightarrow>
          let mediaEntity =
                (toMediaEntityFromStorage (newDate env 0) storageMetadata)
                  \<lparr>me_originalName := me_originalName originalEntity, me_status := Uploaded\<rparr>
          in await (save (newDate env 1) (dbFails env 1) mediaEntity)
               (\<lambda>saved. case saved of
                  Inl e \<Rightarrow> Ended (Inl e)
                | Inr mediaEntity1 \<Rightarrow>
                    completeUpload_finish_task env uploadId originalEntity mediaEntity1))"

definition completeUpload_task :: "Env \<Rightarrow> string \<Rightarrow> (error + FileMetadataDto) Task" where
  "completeUpload_task env uploadId =
     await (findById (dbFails env 0) uploadId)
       (\<lambda>found. case found of
          Inl e \<Rightarrow> Ended (Inl e)
        | Inr None \<Rightarrow> Ended (Inl NotFoundError)
        | Inr (Some originalEntity) \<Rightarrow>
            await (storageCall (StorageVerifyUpload uploadId)
                    (sp_verifyUpload (storageProvider env) uploadId))
              (\<lambda>answer. case answer of
                 Inl e \<Rightarrow> Ended (Inl (if e = NotFoundError then NotFoundError else StorageError))
               | Inr False \<Rightarrow> Ended (Inl NotFoundError)
               | Inr True \<Rightarrow>
                   await (storageCall (StorageGetMetadata uploadId)
                           (sp_getMetadata (storageProvider env) uploadId))
                     (\<lambda>answer. case answer of
                        Inl e \<Rightarrow> Ended (Inl StorageError)
                      | Inr storageMetadata \<Rightarrow>
                          completeUpload_reconcile_task env uploadId originalEntity
                            storageMetadata)))"

definition getFileMetadata_task :: "Env \<Rightarrow> string \<Rightarrow> (error + FileMetadataDto) Task" where
  "getFileMetadata_task env fileId =
     await (findById (dbFails env 0) fileId)
       (\<lambda>found. case found of
          Inl e \<Rightarrow> Ended (Inl e)
        | Inr None \<Rightarrow> Ended (Inl NotFoundError)
        | Inr (Some mediaEntity) \<Rightarrow>
            if me_status mediaEntity = Validated then
              await (storageCall (StorageGetDownloadUrl fileId)
                      (sp_getDownloadUrl (storageProvider env) fileId))
                (\<lambda>answer.
                   let downloadUrl = (case answer of Inl e \<Rightarrow> None | Inr u \<Rightarrow> Some u)
                   in Ended (Inr (StorageMapper_toFileMetadataDto mediaEntity downloadUrl)))
            else Ended (Inr (StorageMapper_toFileMetadataDto mediaEntity None)))"

definition deleteFile_task :: "Env \<Rightarrow> string \<Rightarrow> (error + bool) Task" where
  "deleteFile_task env fileId =
     await (storageCall (StorageDeleteFile fileId) (sp_deleteFile (storageProvider env) fileId))
       (\<lambda>answer.
          let storageDeleted = (case answer of Inl e \<Rightarrow> False | Inr b \<Rightarrow> b)
          in await (deleteById (dbFails env 0) fileId)
               (\<lambda>deleted. case deleted of
                  Inl e \<Rightarrow> Ended (Inl e)
                | Inr dbDeleted \<Rightarrow> Ended (Inr (storageDeleted \<and> dbDeleted))))"

definition updateFile_task :: "UploadConfig \<Rightarrow> Env \<Rightarrow> string \<Rightarrow> UploadRequestDto
                                \<Rightarrow> (error + UploadResponseDto) Task" where
  "updateFile_task cfg env fileId request =
     (case validateUploadRequest cfg request of
        Inl e \<Rightarrow> Ended (Inl e)
      | Inr _ \<Rightarrow>
          await (findById (dbFails env 0) fileId)
            (\<lambda>found. case found of
               Inl e \<Rightarrow> Ended (Inl e)
             | Inr None \<Rightarrow> Ended (Inl NotFoundError)
             | Inr (Some existingFile) \<Rightarrow>
                 await (storageCall (StorageDeleteFile fileId)
                         (sp_deleteFile (storageProvider env) fileId))
                   (\<lambda>answer.
                      let storageMetadata = toStorageMetadata request (Some fileId);
                          mediaEntity =
                            (toMediaEntity (newDate env 0) (newDate env 1) request fileId)
                              \<lparr>me_status := Pending\<rparr>
                      in await (save (newDate env 2) (dbFails env 1) mediaEntity)
                           (\<lambda>saved. case saved of
                              Inl e \<Rightarrow> Ended (Inl e)
                            | Inr _ \<Rightarrow> requestUploadUrl_task env storageMetadata))))"

text \<open>The loop of \<open>searchFiles\<close>; \<open>k\<close> is what follows the loop, given its items.\<close>

primrec searchLoop_task :: "MediaEntity list \<Rightarrow> Env \<Rightarrow> bool \<Rightarrow> (FileMetadataDto list \<Rightarrow> 'r Task)
                            \<Rightarrow> 'r Task" where
  "searchLoop_task [] env includeUrls k = k []"
| "searchLoop_task (entity # rest) env includeUrls k =
     (let dto = MediaMapper_toFileMetadataDto entity
      in if includeUrls \<and> me_status entity = Validated then
           await (storageCall (StorageGetDownloadUrl (me_id entity))
                   (sp_getDownloadUrl (storageProvider env) (me_id entity)))
             (\<lambda>answer.
                let dto1 = (case answer of Inl e \<Rightarrow> dto | Inr u \<Rightarrow> dto\<lparr>dto_url := Some u\<rparr>)
                in searchLoop_task rest env includeUrls (\<lambda>dtos. k (dto1 # dtos)))
         else searchLoop_task rest env includeUrls (\<lambda>dtos. k (dto # dtos)))"

definition searchFiles_task :: "Env \<Rightarrow> MediaFilter \<Rightarrow> bool \<Rightarrow> (error + PaginatedResultDto) Task" where
  "searchFiles_task env fltr includeUrls =
     (let limit = (case f_limit fltr of
                     None \<Rightarrow> Finite 20
                   | Some l \<Rightarrow> if truthyNumber l then l else Finite 20);
          page = (case f_page fltr of
                    None \<Rightarrow> Finite 1
                  | Some p \<Rightarrow> if truthyNumber p then p else Finite 1);
          skip = jsMul (jsSub page (Finite 1)) limit;
          sortField = (case f_sortBy fltr of
                         None \<Rightarrow> ''createdAt''
                       | Some s \<Rightarrow> if s = [] then ''createdAt'' else s);
          sortDirection = (if f_sortOrder fltr = Some Asc then 1 else - 1);
          query = buildQuery fltr
      in await (count_repo env (dbFails env 0) query)
           (\<lambda>counted. case counted of
              Inl e \<Rightarrow> Ended (Inl e)
            | Inr totalItems \<Rightarrow>
                let totalPages = Math_ceil (jsDiv totalItems limit);
                    options = \<lparr>o_limit = limit, o_skip = skip,
                               o_sort = (sortField, sortDirection)\<rparr>
                in await (find_repo env (dbFails env 1) query options)
                     (\<lambda>found. case found of
                        Inl e \<Rightarrow> Ended (Inl e)
                      | Inr mediaEntities \<Rightarrow>
                          searchLoop_task mediaEntities env includeUrls
                            (\<lambda>mediaDtos.
                               Ended (Inr \<lparr>res_items = mediaDtos,
                                           res_pagination =
                                             \<lparr>pg_currentPage = page, pg_totalPages = totalPages,
                                              pg_totalItems = totalItems, pg_limit = limit,
                                              pg_hasNextPage = jsLess page totalPages,
                                              pg_hasPreviousPage = jsLess (Finite 1) page\<rparr>\<rparr>)))))"

text \<open>A task run to its end with nothing in between, and a task without its result.\<close>

primrec exec :: "'r Task \<Rightarrow> World \<Rightarrow> 'r \<times> World" where
  "exec (Ended r) = (\<lambda>w. (r, w))"
| "exec (Suspended f) = (\<lambda>w. case map_prod exec id (f w) of (rest, w') \<Rightarrow> rest w')"

primrec discard :: "'r Task \<Rightarrow> unit Task" where
  "discard (Ended r) = Ended ()"
| "discard (Suspended f) = Suspended (\<lambda>w. map_prod discard id (f w))"

fun taskOf :: "UploadConfig \<Rightarrow> Env \<times> Request \<Rightarrow> unit Task" where
  "taskOf cfg (env, InitiateUpload request) = discard (initiateUpload_task cfg env request)"
| "taskOf cfg (env, CompleteUpload uploadId) = discard (completeUpload_task env uploadId)"
| "taskOf cfg (env, GetFileMetadata fileId) = discard (getFileMetadata_task env fileId)"
| "taskOf cfg (env, DeleteFile fileId) = discard (deleteFile_task env fileId)"
| "taskOf cfg (env, SearchFiles fltr includeUrls) = discard (searchFiles_task env fltr includeUrls)"
| "taskOf cfg (env, UpdateFile fileId request) = discard (updateFile_task cfg env fileId request)"

text \<open>
  Tasks in progress together: the schedule names, step after step, the task that makes
  its next call (a task that has ended, or a number that names no task, makes none).
\<close>

fun interleave :: "nat list \<Rightarrow> 'r Task list \<Rightarrow> World \<Rightarrow> 'r Task list \<times> World" where
  "interleave [] tasks w = (tasks, w)"
| "interleave (i # schedule) tasks w =
     (if i < length tasks then
        (case tasks ! i of
           Ended r \<Rightarrow> interleave schedule tasks w
         | Suspended f \<Rightarrow> (case f w of (t, w') \<Rightarrow> interleave schedule (tasks[i := t]) w'))
      else interleave schedule tasks w)"

text \<open>
  One task among others: each of its calls is made on a state the others have left,
  here any state at all. The result, when the task ends within the states given, and the
  statuses its calls have saved.
\<close>

fun disturbed :: "'r Task \<Rightarrow> World list \<Rightarrow> 'r option \<times> MediaStatus list" where
  "disturbed (Ended r) ws = (Some r, [])"
| "disturbed (Suspended f) [] = (None, [])"
| "disturbed (Suspended f) (w # ws) =
     (case f w of
        (t, w') \<Rightarrow>
          (case disturbed t ws of
             (r, statuses) \<Rightarrow> (r, savedStatuses (newEvents w w') @ statuses)))"

text \<open>
  A task every call of which adds to the trace without saving \<open>failed\<close>, and keeps the
  store in agreement with the trace.
\<close>

inductive safe :: "'r Task \<Rightarrow> bool" where
  safe_Ended: "safe (Ended r)"
| safe_Suspended:
    "(\<And>w. (\<exists>evs. trace (snd (f w)) = trace w @ evs \<and> Failed \<notin> set (savedStatuses evs)) \<and>
          (storeFollowsTrace w \<longrightarrow> storeFollowsTrace (snd (f w))) \<and>
          safe (fst (f w)))
     \<Longrightarrow> safe (Suspended f)"

section \<open>A deployment for concrete runs\<close>

text \<open>
  The configuration of the environment template (env.ts), a storage provider that holds
  one object of a given size and answers content validation and deletion in a given way,
  and an environment whose clock starts at a given time and whose database never fails.
\<close>

definition exampleConfig :: UploadConfig where
  "exampleConfig =
     \<lparr>allowedMimeTypes = [''image/jpeg'', ''image/png'', ''image/gif''],
      maxFileSize = 104857600\<rparr>"

definition exampleStorage :: "real \<Rightarrow> error + bool \<Rightarrow> error + bool \<Rightarrow> StorageProvider" where
  "exampleStorage actualSize contentResult deleteResult =
     \<lparr>sp_getUploadUrl =
        (\<lambda>m. Inr \<lparr>sur_uploadId = sm_id m, sur_url = ''https://bucket/uploads/'' @ sm_id m,
                  sur_expires = 900000\<rparr>),
      sp_verifyUpload = (\<lambda>i. Inr True),
      sp_getMetadata =
        (\<lambda>i. Inr \<lparr>sm_id = i, sm_originalName = ''photo.jpg'', sm_mimeType = ''image/jpeg'',
                  sm_size = actualSize, sm_key = ''uploads/'' @ i @ ''/photo.jpg'',
                  sm_bucket = ''bucket'', sm_uploadedAt = Some 150, sm_status = Uploaded\<rparr>),
      sp_getDownloadUrl = (\<lambda>i. Inr (''https://bucket/download/'' @ i)),
      sp_deleteFile = (\<lambda>i. deleteResult),
      sp_validateFileContent = (\<lambda>i m. contentResult)\<rparr>"

definition exampleEnv :: "StorageProvider \<Rightarrow> date \<Rightarrow> Env" where
  "exampleEnv sp t =
     \<lparr>storageProvider = sp, randomUUID = ''f1'', newDate = (\<lambda>k. t + k),
      dbFails = (\<lambda>k. False), mongoCount = (\<lambda>q. Finite 25), mongoFind = (\<lambda>q opts. [])\<rparr>"

definition exampleRequest :: "real \<Rightarrow> UploadRequestDto" where
  "exampleRequest declaredSize =
     \<lparr>req_fileName = ''photo.jpg'', req_mimeType = ''image/jpeg'', req_size = declaredSize\<rparr>"

definition exampleParams :: "string option \<Rightarrow> string option \<Rightarrow> SearchParams" where
  "exampleParams pageStr limitStr =
     \<lparr>p_status = None, p_mimeType = None, p_fileName = None, p_startDate = None,
      p_endDate = None, p_minSize = None, p_maxSize = None, p_includeUrls = None,
      p_page = pageStr, p_limit = limitStr, p_sortBy = None, p_sortOrder = None\<rparr>"

text \<open>The state with one record, created at time 100 and still pending.\<close>

definition pendingWorld :: "real \<Rightarrow> World" where
  "pendingWorld declaredSize =
     \<lparr>db = [''f1'' \<mapsto> (toMediaEntity 100 101 (exampleRequest declaredSize) ''f1'')
                            \<lparr>me_updatedAt := Some 102\<rparr>],
      trace = []\<rparr>"

section \<open>Properties of the content signature validator\<close>

lemma bytesMatch_take_drop:
  "bytesMatch buffer pos ss = (take (length ss) (drop pos buffer) = ss)"
proof (induction ss arbitrary: pos)
  case Nil
  then show ?case by simp
next
  case (Cons s ss)
  show ?case
  proof (cases "pos < length buffer")
    case True
    then have d: "drop pos buffer = buffer ! pos # drop (Suc pos) buffer"
      by (simp only: Cons_nth_drop_Suc)
    have "bytesMatch buffer pos (s # ss) = (buffer ! pos = s \<and> bytesMatch buffer (Suc pos) ss)"
      using True by simp
    also have "\<dots> = (buffer ! pos = s \<and> take (length ss) (drop (Suc pos) buffer) = ss)"
      by (simp only: Cons.IH)
    also have "\<dots> = (take (length (s # ss)) (buffer ! pos # drop (Suc pos) buffer) = s # ss)"
      by simp
    finally show ?thesis by (simp only: d)
  next
    case False
    then show ?thesis by simp
  qed
qed

lemma take_drop_fits:
  assumes "take (length ss) (drop k buffer) = ss" and "ss \<noteq> []"
  shows "k + length ss \<le> length buffer"
proof -
  have "length (take (length ss) (drop k buffer)) = length ss" using assms(1) by simp
  then have "min (length buffer - k) (length ss) = length ss" by simp
  then have "length ss \<le> length buffer - k" by linarith
  moreover have "0 < length ss" using assms(2) by simp
  ultimately show ?thesis by linarith
qed

text \<open>
  For a signature that is not empty, the length guard and the byte loop together say that
  the signature equals the buffer contents at the offset. (An empty signature at an offset
  past the end of the buffer would be skipped by the guard; the table has none.)
\<close>

lemma signatureMatches_eq:
  assumes "sig_signature entry \<noteq> []"
  shows "signatureMatches buffer entry = signatureEqualsAt buffer entry"
proof (cases "sig_offset entry")
  case None
  show ?thesis
    using take_drop_fits [of "sig_signature entry" 0 buffer] assms None
    by (auto simp: signatureMatches_def signatureEqualsAt_def Let_def bytesMatch_take_drop)
next
  case (Some off)
  show ?thesis
    using take_drop_fits [of "sig_signature entry" off buffer] assms Some
    by (auto simp: signatureMatches_def signatureEqualsAt_def Let_def bytesMatch_take_drop)
qed

lemma table_signatures_nonempty:
  "entry \<in> set FILE_SIGNATURES \<Longrightarrow> sig_signature entry \<noteq> []"
  by (auto simp: FILE_SIGNATURES_def)

lemma validateLoop_ex:
  "validateLoop buffer entries = (\<exists>e\<in>set entries. signatureMatches buffer e)"
  by (induction entries) auto

lemma detectLoop_find:
  "detectLoop buffer entries
   = map_option sig_mimeType (List.find (signatureMatches buffer) entries)"
  by (induction entries) auto

lemma find_cong_set:
  "(\<And>x. x \<in> set xs \<Longrightarrow> P x = Q x) \<Longrightarrow> List.find P xs = List.find Q xs"
  by (induction xs) auto

text \<open>
  C4. \<open>validateFileContent\<close> returns false for a missing buffer and for a buffer of fewer
  than 8 bytes, whatever the claimed type. For a buffer of at least 8 bytes it returns
  true when no table entry's MIME type is a prefix of the claimed type, and otherwise
  exactly when some selected entry's signature equals the buffer contents at that entry's
  offset.
\<close>

theorem validateFileContent_spec:
  "validateFileContent None claimedMimeType = False \<and>
   validateFileContent (Some buffer) claimedMimeType =
     (8 \<le> length buffer \<and>
      (selectedEntries claimedMimeType = [] \<or>
       (\<exists>entry\<in>set (selectedEntries claimedMimeType). signatureEqualsAt buffer entry)))"
proof -
  have "(\<exists>e\<in>set (selectedEntries claimedMimeType). signatureMatches buffer e)
        = (\<exists>e\<in>set (selectedEntries claimedMimeType). signatureEqualsAt buffer e)"
    using table_signatures_nonempty signatureMatches_eq
    by (auto simp: selectedEntries_def)
  then show ?thesis
    by (auto simp: validateFileContent_def startsWith_def Let_def validateLoop_ex
          selectedEntries_def [symmetric])
qed

text \<open>
  The cases of the specification's content check: a JPEG header claimed as
  \<open>image/jpeg\<close> is valid, a PNG header claimed as \<open>image/jpeg\<close> is not; a type with no
  table entry passes on 8 bytes and fails on 3.
\<close>

lemma validateFileContent_examples:
  "validateFileContent (Some [0xFF, 0xD8, 0xFF, 0xE0, 0x00, 0x10, 0x4A, 0x46]) ''image/jpeg''"
  "\<not> validateFileContent (Some [0x89, 0x50, 0x4E, 0x47, 0x0D, 0x0A, 0x1A, 0x0A]) ''image/jpeg''"
  "validateFileContent (Some [0x89, 0x50, 0x4E, 0x47, 0x0D, 0x0A, 0x1A, 0x0A]) ''text/plain''"
  "\<not> validateFileContent (Some [0x89, 0x50, 0x4E]) ''text/plain''"
  by (simp_all add: validateFileContent_def FILE_SIGNATURES_def startsWith_def
        signatureMatches_def)

theorem validateFileContent_spec_witness:
  "validateFileContent (Some [0x89, 0x50, 0x4E, 0x47, 0x0D, 0x0A, 0x1A, 0x0A]) ''text/plain'' \<and>
   selectedEntries ''text/plain'' = [] \<and>
   \<not> validateFileContent (Some [0x89, 0x50, 0x4E]) ''text/plain''"
proof -
  have "selectedEntries ''text/plain'' = []"
    by (simp add: selectedEntries_def FILE_SIGNATURES_def)
  then show ?thesis
    using validateFileContent_spec
            [of "''text/plain''" "[0x89, 0x50, 0x4E, 0x47, 0x0D, 0x0A, 0x1A, 0x0A]"]
          validateFileContent_spec [of "''text/plain''" "[0x89, 0x50, 0x4E]"]
    by simp
qed

lemma zip_shape:
  assumes "8 \<le> length (buffer :: byte list)" and "take 4 buffer = [0x50, 0x4B, 0x03, 0x04]"
  shows "\<exists>rest. buffer = 0x50 # 0x4B # 0x03 # 0x04 # rest \<and> 4 \<le> length rest"
proof -
  have "buffer = take 4 buffer @ drop 4 buffer" by simp
  then have "buffer = [0x50, 0x4B, 0x03, 0x04] @ drop 4 buffer" using assms(2) by simp
  moreover have "4 \<le> length (drop 4 buffer)" using assms(1) by simp
  ultimately show ?thesis by auto
qed

text \<open>
  C5, as stated, fails in its first part: \<open>detectMimeType\<close> does not always return the
  MIME type of the first entry whose signature matches the buffer. The seven bytes
  \<open>25 50 44 46 2D 31 2E\<close> (\<open>%PDF-1.\<close>) match the signature of \<open>application/pdf\<close>, the
  first entry that matches them, and nothing is detected, the buffer being shorter than
  8 bytes.
\<close>

theorem detectMimeType_short_buffer:
  "map_option sig_mimeType
     (List.find (signatureEqualsAt [0x25, 0x50, 0x44, 0x46, 0x2D, 0x31, 0x2E]) FILE_SIGNATURES)
     = Some ''application/pdf'' \<and>
   detectMimeType (Some [0x25, 0x50, 0x44, 0x46, 0x2D, 0x31, 0x2E]) = None"
  by (simp add: detectMimeType_def FILE_SIGNATURES_def signatureEqualsAt_def)

text \<open>
  C5, amended. For a buffer of at least 8 bytes, \<open>detectMimeType\<close> returns the MIME type
  of the first entry of the table, in its declared order, whose signature equals the
  buffer contents at its offset, and nothing when there is none; for a buffer of fewer
  than 8 bytes, or no buffer, it returns nothing. So every buffer of at least 8 bytes
  that begins with \<open>50 4B 03 04\<close> is detected as
  \<open>application/vnd.openxmlformats-officedocument\<close>, the earlier of the two entries with
  that signature, and never as \<open>application/zip\<close>.
\<close>

theorem detectMimeType_first_match:
  "detectMimeType None = None \<and>
   detectMimeType (Some buffer) =
     (if length buffer < 8 then None
      else map_option sig_mimeType (List.find (signatureEqualsAt buffer) FILE_SIGNATURES)) \<and>
   (8 \<le> length buffer \<and> take 4 buffer = [0x50, 0x4B, 0x03, 0x04] \<longrightarrow>
      detectMimeType (Some buffer) = Some ''application/vnd.openxmlformats-officedocument'' \<and>
      detectMimeType (Some buffer) \<noteq> Some ''application/zip'')"
proof -
  have first: "detectMimeType (Some buffer) =
     (if length buffer < 8 then None
      else map_option sig_mimeType (List.find (signatureEqualsAt buffer) FILE_SIGNATURES))"
  proof -
    have "List.find (signatureMatches buffer) FILE_SIGNATURES
          = List.find (signatureEqualsAt buffer) FILE_SIGNATURES"
      by (rule find_cong_set) (simp add: signatureMatches_eq table_signatures_nonempty)
    then show ?thesis by (simp add: detectMimeType_def detectLoop_find)
  qed
  have zip: "detectMimeType (Some buffer) = Some ''application/vnd.openxmlformats-officedocument''"
    if "8 \<le> length buffer" "take 4 buffer = [0x50, 0x4B, 0x03, 0x04]"
  proof -
    from zip_shape [OF that] obtain rest
      where b: "buffer = 0x50 # 0x4B # 0x03 # 0x04 # rest" and r: "4 \<le> length rest" by blast
    show ?thesis
      unfolding b using r
      by (simp add: detectMimeType_def FILE_SIGNATURES_def signatureMatches_def)
  qed
  have none: "detectMimeType None = None" by (simp add: detectMimeType_def)
  have third: "8 \<le> length buffer \<and> take 4 buffer = [0x50, 0x4B, 0x03, 0x04] \<longrightarrow>
      detectMimeType (Some buffer) = Some ''application/vnd.openxmlformats-officedocument'' \<and>
      detectMimeType (Some buffer) \<noteq> Some ''application/zip''"
    using zip by simp
  from none first third show ?thesis by blast
qed

theorem detectMimeType_first_match_witness:
  "8 \<le> length [0x50, 0x4B, 0x03, 0x04, 0x14, 0, 0, 0 :: byte] \<and>
   take 4 [0x50, 0x4B, 0x03, 0x04, 0x14, 0, 0, 0 :: byte] = [0x50, 0x4B, 0x03, 0x04] \<and>
   detectMimeType (Some [0x50, 0x4B, 0x03, 0x04, 0x14, 0, 0, 0])
     = Some ''application/vnd.openxmlformats-officedocument''"
proof -
  have len: "8 \<le> length [0x50, 0x4B, 0x03, 0x04, 0x14, 0, 0, 0 :: byte]" by simp
  have tk: "take 4 [0x50, 0x4B, 0x03, 0x04, 0x14, 0, 0, 0 :: byte] = [0x50, 0x4B, 0x03, 0x04]"
    by simp
  from detectMimeType_first_match [of "[0x50, 0x4B, 0x03, 0x04, 0x14, 0, 0, 0]"] len tk
  show ?thesis by blast
qed

section \<open>Properties of double rounding\<close>

lemma roundHalfEven_of_int [simp]: "roundHalfEven (of_int m) = m"
  by (simp add: roundHalfEven_def)

lemma roundHalfEven_error: "\<bar>of_int (roundHalfEven y) - y\<bar> \<le> 1 / 2"
  unfolding roundHalfEven_def Let_def by (auto simp: abs_if) linarith+

lemma roundHalfEven_ge: "of_int m \<le> y \<Longrightarrow> m \<le> roundHalfEven y"
  unfolding roundHalfEven_def Let_def by (auto simp: le_floor_iff) linarith+

lemma roundHalfEven_le: "y \<le> of_int m \<Longrightarrow> roundHalfEven y \<le> m"
  unfolding roundHalfEven_def Let_def
  by (auto simp: floor_le_iff)

lemma ulp_pos: "0 < ulp x"
  by (simp add: ulp_def)

lemma binade_eq:
  assumes "2 powi k \<le> \<bar>x\<bar>" and "\<bar>x\<bar> < 2 powi (k + 1)" and "- 1022 \<le> k"
  shows "binade x = k"
proof -
  have pos: "0 < \<bar>x\<bar>"
    using assms(1) by (smt (verit) zero_less_power_int)
  have e1: "2 powr real_of_int k = 2 powi k"
    by (rule powr_real_of_int') simp_all
  have e2: "2 powr real_of_int (k + 1) = 2 powi (k + 1)"
    by (rule powr_real_of_int') simp_all
  have "2 powr real_of_int k \<le> \<bar>x\<bar> \<and> \<bar>x\<bar> < 2 powr real_of_int (k + 1)"
    unfolding e1 e2 using assms(1,2) by simp
  hence "\<lfloor>log 2 \<bar>x\<bar>\<rfloor> = k"
    using floor_log_eq_powr_iff [of "\<bar>x\<bar>" 2 k] pos by simp
  thus ?thesis using assms(3) by (simp add: binade_def)
qed

lemma binade_bounds:
  assumes "2 powi (- 1022) \<le> \<bar>x\<bar>"
  shows "2 powi (binade x) \<le> \<bar>x\<bar> \<and> \<bar>x\<bar> < 2 powi (binade x + 1)"
proof -
  have pos: "0 < \<bar>x\<bar>"
    using assms by (smt (verit) zero_less_power_int)
  define k where "k = \<lfloor>log 2 \<bar>x\<bar>\<rfloor>"
  have e1: "2 powr real_of_int k = 2 powi k"
    by (rule powr_real_of_int') simp_all
  have e2: "2 powr real_of_int (k + 1) = 2 powi (k + 1)"
    by (rule powr_real_of_int') simp_all
  have "2 powr real_of_int k \<le> \<bar>x\<bar> \<and> \<bar>x\<bar> < 2 powr real_of_int (k + 1)"
    using floor_log_eq_powr_iff [of "\<bar>x\<bar>" 2 k] pos by (simp add: k_def)
  hence k: "2 powi k \<le> \<bar>x\<bar> \<and> \<bar>x\<bar> < 2 powi (k + 1)"
    unfolding e1 e2 .
  have "- 1022 \<le> k"
  proof (rule ccontr)
    assume "\<not> - 1022 \<le> k"
    hence "k + 1 \<le> - 1022" by simp
    hence "(2::real) powi (k + 1) \<le> 2 powi (- 1022)"
      by (intro power_int_increasing) simp_all
    with k assms show False by linarith
  qed
  hence "binade x = k" by (simp add: binade_def k_def)
  with k show ?thesis by simp
qed

text \<open>
  Evaluation: when \<open>x\<close> times a power of two lies in the range of a 53-bit significand,
  \<open>x\<close> is rounded at that scale.
\<close>

lemma binary64_scaled:
  assumes "2 ^ 52 \<le> \<bar>x\<bar> * 2 powi m" and "\<bar>x\<bar> * 2 powi m < 2 ^ 53" and "m \<le> 1074"
  shows "binary64 x = of_int (roundHalfEven (x * 2 powi m)) / 2 powi m"
proof -
  have split: "(2::real) powi (52 - m) = 2 ^ 52 / 2 powi m"
    by (simp add: power_int_diff)
  have split': "(2::real) powi (52 - m + 1) = 2 ^ 53 / 2 powi m"
    by (simp add: power_int_diff)
  have p: "(0::real) < 2 powi m" by simp
  have "2 powi (52 - m) \<le> \<bar>x\<bar>"
    unfolding split using assms(1) p by (simp add: field_simps)
  moreover have "\<bar>x\<bar> < 2 powi (52 - m + 1)"
    unfolding split' using assms(2) p by (simp add: field_simps)
  ultimately have b: "binade x = 52 - m"
    using assms(3) by (intro binade_eq) simp_all
  have u: "ulp x = 1 / 2 powi m"
    by (simp add: ulp_def b power_int_minus_divide)
  have "x \<noteq> 0" using assms(1) by auto
  thus ?thesis by (simp add: binary64_def u)
qed

lemma tenth: "binary64 (1 / 10) = 3602879701896397 / 2 ^ 55"
proof -
  have "binary64 (1 / 10) = of_int (roundHalfEven (1 / 10 * 2 powi 56)) / 2 powi 56"
    by (rule binary64_scaled) simp_all
  also have "\<dots> = 3602879701896397 / 2 ^ 55"
    by (simp add: roundHalfEven_def)
  finally show ?thesis .
qed

text \<open>The integers up to \<open>2^53\<close> in absolute value are doubles.\<close>

lemma binary64_of_int:
  assumes "\<bar>n\<bar> \<le> 2 ^ 53"
  shows "binary64 (of_int n) = of_int n"
proof (cases "n = 0")
  case True thus ?thesis by (simp add: binary64_def)
next
  case False
  let ?x = "of_int n :: real"
  have one: "1 \<le> \<bar>?x\<bar>" using False by (simp flip: of_int_abs)
  have "(2::real) powi (- 1022) \<le> 1"
    by (simp add: power_int_minus_divide)
  hence norm: "2 powi (- 1022) \<le> \<bar>?x\<bar>" using one by linarith
  note bb = binade_bounds [OF norm]
  define k where "k = binade ?x"
  have k0: "0 \<le> k"
  proof (rule ccontr)
    assume "\<not> 0 \<le> k"
    hence "k + 1 \<le> 0" by simp
    hence "(2::real) powi (k + 1) \<le> 2 powi 0"
      by (intro power_int_increasing) simp_all
    with bb one show False by (simp add: k_def)
  qed
  have le: "\<bar>?x\<bar> \<le> 2 ^ 53"
    using assms by (metis of_int_abs of_int_le_iff of_int_numeral of_int_power)
  have k53: "k \<le> 53"
  proof (rule ccontr)
    assume "\<not> k \<le> 53"
    hence "54 \<le> k" by simp
    hence "(2::real) powi 54 \<le> 2 powi k"
      by (intro power_int_increasing) simp_all
    with bb le show False by (simp add: k_def)
  qed
  show ?thesis
  proof (cases "k \<le> 52")
    case True
    have u: "ulp ?x = 1 / 2 ^ nat (52 - k)"
      using True by (simp add: ulp_def k_def [symmetric] power_int_def power_one_over)
    have "?x / ulp ?x = of_int (n * 2 ^ nat (52 - k))"
      by (simp add: u)
    hence "roundHalfEven (?x / ulp ?x) = n * 2 ^ nat (52 - k)"
      by (metis roundHalfEven_of_int)
    thus ?thesis using False by (simp add: binary64_def u)
  next
    case False
    hence k: "k = 53" using k53 by simp
    have "\<bar>?x\<bar> = 2 ^ 53" using bb le by (simp add: k_def [symmetric] k)
    hence x: "?x = 2 ^ 53 \<or> ?x = - (2 ^ 53)" by linarith
    have u: "ulp ?x = 2" by (simp add: ulp_def k_def [symmetric] k)
    have half: "?x / 2 = of_int (n div 2) \<and> even n"
      using x
    proof
      assume "?x = 2 ^ 53"
      hence "n = 2 ^ 53" by (metis of_int_eq_iff of_int_numeral of_int_power)
      thus ?thesis by simp
    next
      assume "?x = - (2 ^ 53)"
      hence "n = - (2 ^ 53)"
        by (metis of_int_eq_iff of_int_numeral of_int_power of_int_minus)
      thus ?thesis by simp
    qed
    hence ev: "even n" by simp
    have "?x / ulp ?x = of_int (n div 2)"
      using half by (simp only: u)
    hence r: "roundHalfEven (?x / ulp ?x) = n div 2"
      by (metis roundHalfEven_of_int)
    have two: "2 * real_of_int (n div 2) = real_of_int n"
      using ev by (metis even_two_times_div_two of_int_mult of_int_numeral)
    have "binary64 ?x = ulp ?x * of_int (roundHalfEven (?x / ulp ?x))"
      using \<open>n \<noteq> 0\<close> by (simp add: binary64_def)
    also have "\<dots> = 2 * real_of_int (n div 2)"
      by (subst r) (simp only: u)
    finally show ?thesis using two by simp
  qed
qed

text \<open>The relative error of rounding a number in the normal range.\<close>

lemma binary64_error:
  assumes "2 powi (- 1022) \<le> \<bar>x\<bar>"
  shows "\<bar>binary64 x - x\<bar> \<le> \<bar>x\<bar> / 2 ^ 53"
proof -
  note bb = binade_bounds [OF assms]
  have x0: "x \<noteq> 0" using assms by (smt (verit) zero_less_power_int)
  have u: "ulp x = 2 powi binade x / 2 ^ 52"
    by (simp add: ulp_def power_int_diff)
  hence ule: "ulp x \<le> \<bar>x\<bar> / 2 ^ 52" using bb by (simp add: field_simps)
  have "binary64 x - x = ulp x * (of_int (roundHalfEven (x / ulp x)) - x / ulp x)"
    using x0 ulp_pos [of x] by (simp add: binary64_def right_diff_distrib)
  hence "\<bar>binary64 x - x\<bar> = ulp x * \<bar>of_int (roundHalfEven (x / ulp x)) - x / ulp x\<bar>"
    using ulp_pos [of x] by (simp add: abs_mult)
  also have "\<dots> \<le> ulp x * (1 / 2)"
    using roundHalfEven_error [of "x / ulp x"] ulp_pos [of x]
    by (intro mult_left_mono) simp_all
  also have "\<dots> \<le> \<bar>x\<bar> / 2 ^ 53" using ule by simp
  finally show ?thesis .
qed

text \<open>Rounding is monotone at the integers that are doubles.\<close>

lemma binary64_ge_int:
  assumes "0 \<le> n" and "n \<le> 2 ^ 53" and "of_int n \<le> x"
  shows "of_int n \<le> binary64 x"
proof (cases "n = 0")
  case True
  have "0 \<le> x" using assms True by simp
  hence "0 \<le> x / ulp x" using ulp_pos [of x] by simp
  hence "0 \<le> roundHalfEven (x / ulp x)"
    using roundHalfEven_ge [of 0 "x / ulp x"] by simp
  thus ?thesis using True ulp_pos [of x] by (simp add: binary64_def)
next
  case False
  hence n1: "1 \<le> n" using assms(1) by simp
  hence x1: "1 \<le> x" using assms(3) by (smt (verit) of_int_1_le_iff)
  have "(2::real) powi (- 1022) \<le> 1"
    by (simp add: power_int_minus_divide)
  hence norm: "2 powi (- 1022) \<le> \<bar>x\<bar>" using x1 by linarith
  note bb = binade_bounds [OF norm]
  define k where "k = binade x"
  have k0: "0 \<le> k"
  proof (rule ccontr)
    assume "\<not> 0 \<le> k"
    hence "k + 1 \<le> 0" by simp
    hence "(2::real) powi (k + 1) \<le> 2 powi 0"
      by (intro power_int_increasing) simp_all
    with bb x1 show False by (simp add: k_def)
  qed
  have x0: "x \<noteq> 0" using x1 by simp
  have nle: "real_of_int n \<le> 2 ^ 53"
    using assms(2) by (metis of_int_le_iff of_int_numeral of_int_power)
  show ?thesis
  proof (cases "k \<le> 52")
    case True
    have u: "ulp x = 1 / 2 ^ nat (52 - k)"
      using True by (simp add: ulp_def k_def [symmetric] power_int_def power_one_over)
    have "of_int (n * 2 ^ nat (52 - k)) \<le> x / ulp x"
      using assms(3) by (simp add: u)
    hence "n * 2 ^ nat (52 - k) \<le> roundHalfEven (x / ulp x)"
      by (rule roundHalfEven_ge)
    hence "real_of_int (n * 2 ^ nat (52 - k)) \<le> of_int (roundHalfEven (x / ulp x))"
      by (simp only: of_int_le_iff)
    thus ?thesis using x0 by (simp add: binary64_def u field_simps)
  next
    case False
    hence k53: "53 \<le> k" by simp
    have u: "ulp x = 2 powi k / 2 ^ 52"
      by (simp add: ulp_def k_def power_int_diff)
    have "2 ^ 52 \<le> x / ulp x"
      using bb x1 by (simp add: u k_def field_simps)
    hence "of_int (2 ^ 52) \<le> x / ulp x" by simp
    hence "2 ^ 52 \<le> roundHalfEven (x / ulp x)"
      by (rule roundHalfEven_ge)
    hence "real_of_int (2 ^ 52) \<le> of_int (roundHalfEven (x / ulp x))"
      by (simp only: of_int_le_iff)
    hence "2 powi k \<le> binary64 x"
      using x0 by (simp add: binary64_def u field_simps)
    moreover have "(2::real) powi 53 \<le> 2 powi k"
      using k53 by (intro power_int_increasing) simp_all
    ultimately show ?thesis using nle by simp
  qed
qed

lemma binary64_nonpos: "x \<le> 0 \<Longrightarrow> binary64 x \<le> 0"
proof -
  assume "x \<le> 0"
  hence "x / ulp x \<le> of_int 0" using ulp_pos [of x] by (simp add: divide_le_0_iff)
  hence "roundHalfEven (x / ulp x) \<le> 0" by (rule roundHalfEven_le)
  hence "real_of_int (roundHalfEven (x / ulp x)) \<le> 0" by simp
  thus ?thesis using ulp_pos [of x] by (simp add: binary64_def mult_le_0_iff)
qed

lemma normal_ge_one: "1 \<le> \<bar>x\<bar> \<Longrightarrow> 2 powi (- 1022) \<le> \<bar>x::real\<bar>"
proof -
  assume "1 \<le> \<bar>x\<bar>"
  moreover have "(2::real) powi (- 1022) \<le> 1" by (simp add: power_int_minus_divide)
  ultimately show ?thesis by linarith
qed

lemma toNumber_of_int: "\<bar>n\<bar> \<le> 2 ^ 53 \<Longrightarrow> toNumber (of_int n) = Finite (of_int n)"
proof -
  assume a: "\<bar>n\<bar> \<le> 2 ^ 53"
  hence "\<bar>real_of_int n\<bar> \<le> 2 ^ 53"
    by (metis of_int_abs of_int_le_iff of_int_numeral of_int_power)
  moreover have "(2::real) ^ 53 < 2 ^ 1024" by simp
  ultimately have "\<not> real_of_int n \<ge> 2 ^ 1024" and "\<not> real_of_int n \<le> - (2 ^ 1024)"
    by linarith+
  thus ?thesis by (simp add: toNumber_def binary64_of_int [OF a])
qed

lemma toNumber_normal:
  assumes "2 powi (- 1022) \<le> \<bar>x\<bar>" and "\<bar>x\<bar> \<le> 2 ^ 1023"
  shows "toNumber x = Finite (binary64 x)"
proof -
  have "\<bar>binary64 x - x\<bar> \<le> \<bar>x\<bar> / 2 ^ 53" by (rule binary64_error [OF assms(1)])
  moreover have "\<bar>x\<bar> / 2 ^ 53 \<le> \<bar>x\<bar> / 2" by simp
  ultimately have "\<bar>binary64 x\<bar> \<le> 2 ^ 1023 + 2 ^ 1023 / 2" using assms(2) by linarith
  moreover have "(2::real) ^ 1023 + 2 ^ 1023 / 2 < 2 ^ 1024" by simp
  ultimately have "\<not> binary64 x \<ge> 2 ^ 1024" and "\<not> binary64 x \<le> - (2 ^ 1024)"
    by linarith+
  thus ?thesis by (simp add: toNumber_def)
qed

lemma toNumber_tenth: "toNumber (1 / 10) = Finite (3602879701896397 / 2 ^ 55)"
  by (simp add: toNumber_def tenth)

subsection \<open>The size check\<close>

text \<open>
  On whole numbers of bytes the rounded tolerance decides as the exact tenth does:
  the tolerance is at most \<open>d / 10\<close> times \<open>(1 + 2^-52)\<close>, and the difference is a whole
  number.
\<close>

lemma tenth_normal: "2 powi (- 1022) \<le> (3602879701896397 / 2 ^ 55 :: real)"
proof -
  have "(2::real) powi (- 1022) \<le> 2 powi (- 4)"
    by (intro power_int_increasing) simp_all
  also have "\<dots> \<le> 3602879701896397 / 2 ^ 55"
    by (simp add: power_int_minus_divide)
  finally show ?thesis .
qed

lemma tolerance_exact:
  fixes d D :: int
  assumes "\<bar>d\<bar> \<le> 2 ^ 50" and "0 \<le> D" and "D \<le> 2 ^ 53"
  shows "(binary64 (of_int d * (3602879701896397 / 2 ^ 55)) < of_int D \<and> (1024::real) < of_int D)
       = (real_of_int d / 10 < of_int D \<and> (1024::real) < of_int D)"
proof (cases "d \<le> 0")
  case True
  hence "real_of_int d * (3602879701896397 / 2 ^ 55) \<le> 0"
    by (simp add: mult_le_0_iff)
  hence "binary64 (of_int d * (3602879701896397 / 2 ^ 55)) \<le> 0"
    by (rule binary64_nonpos)
  moreover have "real_of_int d / 10 \<le> 0" using True by simp
  ultimately show ?thesis by auto
next
  case False
  let ?c = "3602879701896397 / 2 ^ 55 :: real"
  let ?x = "real_of_int d * ?c"
  have d1: "1 \<le> real_of_int d" using False by simp
  have dle: "real_of_int d \<le> 2 ^ 50"
    using assms(1) by (metis abs_le_D1 of_int_le_iff of_int_numeral of_int_power)
  have xc: "?c \<le> ?x" using d1 by simp
  have norm: "2 powi (- 1022) \<le> \<bar>?x\<bar>" using tenth_normal xc by linarith
  have "(binary64 ?x < of_int D) = (real_of_int d / 10 < of_int D)"
  proof
    assume "binary64 ?x < of_int D"
    show "real_of_int d / 10 < of_int D"
    proof (rule ccontr)
      assume "\<not> real_of_int d / 10 < of_int D"
      hence "real_of_int D \<le> ?x" using d1 by simp
      hence "real_of_int D \<le> binary64 ?x"
        by (rule binary64_ge_int [OF assms(2,3)])
      with \<open>binary64 ?x < of_int D\<close> show False by simp
    qed
  next
    assume "real_of_int d / 10 < of_int D"
    hence "real_of_int d < real_of_int (10 * D)" by simp
    hence "d < 10 * D" by (simp only: of_int_less_iff)
    hence "d + 1 \<le> 10 * D" by simp
    hence "real_of_int (d + 1) \<le> real_of_int (10 * D)" by (simp only: of_int_le_iff)
    hence D: "(real_of_int d + 1) / 10 \<le> of_int D" by simp
    have "\<bar>binary64 ?x - ?x\<bar> \<le> \<bar>?x\<bar> / 2 ^ 53" by (rule binary64_error [OF norm])
    hence "binary64 ?x \<le> ?x + ?x / 2 ^ 53" using xc by (simp add: abs_if split: if_splits)
    moreover have "?x + ?x / 2 ^ 53 < (real_of_int d + 1) / 10" using d1 dle by simp
    ultimately show "binary64 ?x < of_int D" using D by linarith
  qed
  thus ?thesis by simp
qed

lemma validateUploadedFile_whole:
  assumes "me_size original = of_int d" and "sm_size uploaded = of_int a"
    and "\<bar>d\<bar> \<le> 2 ^ 50" and "\<bar>a\<bar> \<le> 2 ^ 50"
  shows "(validateUploadedFile original uploaded = Inl ValidationError) =
           (\<bar>me_size original - sm_size uploaded\<bar> > 0.10 * me_size original \<and>
            \<bar>me_size original - sm_size uploaded\<bar> > 1024)"
proof -
  let ?c = "3602879701896397 / 2 ^ 55 :: real"
  have "\<bar>d - a\<bar> \<le> 2 ^ 53" using assms(3,4) by simp
  from toNumber_of_int [OF this]
  have s: "toNumber (real_of_int d - real_of_int a) = Finite (real_of_int d - real_of_int a)"
    by simp
  have m: "toNumber (real_of_int d * ?c) = Finite (binary64 (real_of_int d * ?c))"
  proof (cases "d = 0")
    case True
    thus ?thesis using toNumber_of_int [of 0] by (simp add: binary64_def)
  next
    case False
    hence "1 \<le> \<bar>real_of_int d\<bar>" by (simp flip: of_int_abs)
    hence "?c \<le> \<bar>real_of_int d * ?c\<bar>" by (simp add: abs_mult)
    hence n: "2 powi (- 1022) \<le> \<bar>real_of_int d * ?c\<bar>" using tenth_normal by linarith
    have "\<bar>real_of_int d\<bar> \<le> 2 ^ 50"
      using assms(3) by (metis of_int_abs of_int_le_iff of_int_numeral of_int_power)
    hence "\<bar>real_of_int d * ?c\<bar> \<le> 2 ^ 50" by (simp add: abs_mult)
    moreover have "(2::real) ^ 50 \<le> 2 ^ 1023" by simp
    ultimately have "\<bar>real_of_int d * ?c\<bar> \<le> 2 ^ 1023" by linarith
    with n show ?thesis by (rule toNumber_normal)
  qed
  have D: "0 \<le> \<bar>d - a\<bar>" "\<bar>d - a\<bar> \<le> 2 ^ 53" using assms(3,4) by simp_all
  have abs: "real_of_int \<bar>d - a\<bar> = \<bar>real_of_int d - real_of_int a\<bar>" by simp
  have "(validateUploadedFile original uploaded = Inl ValidationError) =
          (binary64 (of_int d * ?c) < of_int \<bar>d - a\<bar> \<and> (1024::real) < of_int \<bar>d - a\<bar>)"
    unfolding abs using s m
    by (simp add: validateUploadedFile_def Let_def assms(1,2) toNumber_tenth)
  also have "\<dots> = (real_of_int d / 10 < of_int \<bar>d - a\<bar> \<and> (1024::real) < of_int \<bar>d - a\<bar>)"
    by (rule tolerance_exact [OF assms(3) D])
  finally show ?thesis unfolding abs by (simp add: assms(1,2))
qed

text \<open>
  A declared size that is not a whole number: \<open>6757109792476729 / 2^39\<close> (about
  12291.11) with 11062 bytes stored. The difference is a double, and the product with
  \<open>0.1\<close> rounds up to the same double, so the difference is not above the tolerance.
\<close>

lemma validateUploadedFile_fraction:
  assumes "me_size original = 6757109792476729 / 549755813888"
    and "sm_size uploaded = 11062"
  shows "validateUploadedFile original uploaded = Inr ()"
proof -
  let ?d = "6757109792476729 / 549755813888 :: real"
  let ?c = "3602879701896397 / 2 ^ 55 :: real"
  have "binary64 (?d - 11062) = of_int (roundHalfEven ((?d - 11062) * 2 powi 42)) / 2 powi 42"
    by (rule binary64_scaled) simp_all
  also have "\<dots> = 675710979247673 / 549755813888"
    by (simp add: roundHalfEven_def)
  finally have s: "toNumber (?d - 11062) = Finite (675710979247673 / 549755813888)"
    by (simp add: toNumber_def)
  have "binary64 (?d * ?c) = of_int (roundHalfEven (?d * ?c * 2 powi 42)) / 2 powi 42"
    by (rule binary64_scaled) simp_all
  also have "\<dots> = 675710979247673 / 549755813888"
    by (simp add: roundHalfEven_def)
  finally have m: "toNumber (?d * ?c) = Finite (675710979247673 / 549755813888)"
    by (simp add: toNumber_def)
  show ?thesis
    by (simp only: validateUploadedFile_def Let_def assms toNumber_tenth jsSub.simps jsMul.simps
          s m Math_abs.simps jsLess.simps) simp
qed

lemma validateUploadedFile_same_size:
  "me_size original = sm_size uploaded \<Longrightarrow> validateUploadedFile original uploaded = Inr ()"
  using toNumber_of_int [of 0] by (simp add: validateUploadedFile_def Let_def)

lemma validateUploadedFile_cases:
  "validateUploadedFile original uploaded = Inl ValidationError \<or>
   validateUploadedFile original uploaded = Inr ()"
  by (simp add: validateUploadedFile_def Let_def)

section \<open>Properties of the engine\<close>

subsection \<open>Traces\<close>

lemma newEvents_append: "trace w' = trace w @ evs \<Longrightarrow> newEvents w w' = evs"
  by (simp add: newEvents_def)

lemma savedStatuses_append: "savedStatuses (xs @ ys) = savedStatuses xs @ savedStatuses ys"
  by (induction xs rule: savedStatuses.induct) simp_all

lemma statusHistory_append:
  "statusHistory ident (xs @ ys) = statusHistory ident xs @ statusHistory ident ys"
  by (induction ident xs rule: statusHistory.induct) simp_all

lemma statusHistory_no_saves: "savedStatuses evs = [] \<Longrightarrow> statusHistory ident evs = []"
  by (induction evs rule: savedStatuses.induct) simp_all

lemmas engine_defs =
  initiateUpload_def completeUpload_def completeUpload_reconcile_def completeUpload_finish_def
  validateUploadRequest_def validateUploadedFile_same_size requestUploadUrl_def
  save_def findById_def logCall_def toMediaEntity_def toMediaEntityFromStorage_def
  toStorageMetadata_def toUploadResponseDto_def StorageMapper_toFileMetadataDto_def
  exampleConfig_def exampleEnv_def exampleStorage_def exampleRequest_def emptyWorld_def Let_def

subsection \<open>Validation of the upload request\<close>

text \<open>
  C10. The request validation shared by \<open>initiateUpload\<close> and \<open>updateFile\<close> has no lower
  bound and no integrality check on the declared size: a request whose MIME type is in the
  allow-list passes with every size that does not exceed the maximum, zero, negative and
  fractional sizes included, and neither operation then raises a validation error.
\<close>

theorem validateUploadRequest_no_lower_bound:
  assumes "req_mimeType request \<in> set (allowedMimeTypes cfg)"
    and "req_size request \<le> maxFileSize cfg"
  shows "validateUploadRequest cfg request = Inr () \<and>
         fst (initiateUpload cfg env request w) \<noteq> Inl ValidationError \<and>
         fst (updateFile cfg env fileId request w) \<noteq> Inl ValidationError"
proof -
  have valid: "validateUploadRequest cfg request = Inr ()"
    using assms by (simp add: validateUploadRequest_def)
  have "fst (initiateUpload cfg env request w) \<noteq> Inl ValidationError"
    by (simp add: initiateUpload_def valid Let_def save_def requestUploadUrl_def
          split: sum.splits)
  moreover have "fst (updateFile cfg env fileId request w) \<noteq> Inl ValidationError"
    by (simp add: updateFile_def valid Let_def findById_def save_def requestUploadUrl_def
          split: sum.splits option.splits)
  ultimately show ?thesis using valid by simp
qed

theorem validateUploadRequest_no_lower_bound_witness:
  "req_mimeType (exampleRequest 0) \<in> set (allowedMimeTypes exampleConfig) \<and>
   req_size (exampleRequest 0) \<le> maxFileSize exampleConfig \<and>
   validateUploadRequest exampleConfig (exampleRequest 0) = Inr () \<and>
   req_size (exampleRequest (- 5)) \<le> maxFileSize exampleConfig \<and>
   validateUploadRequest exampleConfig (exampleRequest (- 5)) = Inr () \<and>
   req_size (exampleRequest (1 / 2)) \<le> maxFileSize exampleConfig \<and>
   validateUploadRequest exampleConfig (exampleRequest (1 / 2)) = Inr () \<and>
   fst (initiateUpload exampleConfig (exampleEnv (exampleStorage 0 (Inr True) (Inr True)) 100)
          (exampleRequest (- 5)) emptyWorld) \<noteq> Inl ValidationError"
  using validateUploadRequest_no_lower_bound
      [of "exampleRequest 0" exampleConfig
          "exampleEnv (exampleStorage 0 (Inr True) (Inr True)) 100" emptyWorld "''f1''"]
    validateUploadRequest_no_lower_bound
      [of "exampleRequest (- 5)" exampleConfig
          "exampleEnv (exampleStorage 0 (Inr True) (Inr True)) 100" emptyWorld "''f1''"]
    validateUploadRequest_no_lower_bound
      [of "exampleRequest (1 / 2)" exampleConfig
          "exampleEnv (exampleStorage 0 (Inr True) (Inr True)) 100" emptyWorld "''f1''"]
  by (simp add: exampleRequest_def exampleConfig_def)

subsection \<open>initiateUpload\<close>

text \<open>
  C3. \<open>initiateUpload\<close> raises a validation error and leaves the state as it was (no
  record written, no storage call) whenever the MIME type is not in the allow-list or the
  size exceeds the maximum. Every call that returns a credential has done exactly two
  things, in this order: saved a record with status \<open>pending\<close> under the fresh id, then
  asked the storage provider for the upload URL; the record is in the store.
\<close>

theorem initiateUpload_validates_first:
  "(req_mimeType request \<notin> set (allowedMimeTypes cfg) \<or> req_size request > maxFileSize cfg
      \<longrightarrow> initiateUpload cfg env request w = (Inl ValidationError, w)) \<and>
   (\<forall>response w'. initiateUpload cfg env request w = (Inr response, w') \<longrightarrow>
      (\<exists>entity.
         newEvents w w' =
           [RepoSave entity,
            StorageGetUploadUrl (toStorageMetadata request (Some (randomUUID env)))] \<and>
         me_id entity = randomUUID env \<and> me_status entity = Pending \<and>
         db w' (randomUUID env) = Some entity))"
proof (intro conjI allI impI)
  assume "req_mimeType request \<notin> set (allowedMimeTypes cfg) \<or> req_size request > maxFileSize cfg"
  then show "initiateUpload cfg env request w = (Inl ValidationError, w)"
    by (auto simp: initiateUpload_def validateUploadRequest_def)
next
  fix response w'
  assume ok: "initiateUpload cfg env request w = (Inr response, w')"
  let ?entity = "(toMediaEntity (newDate env 0) (newDate env 1) request (randomUUID env))
                   \<lparr>me_updatedAt := Some (newDate env 2)\<rparr>"
  have valid: "validateUploadRequest cfg request = Inr ()"
    using ok by (cases "validateUploadRequest cfg request") (auto simp: initiateUpload_def)
  have nofail: "\<not> dbFails env 0"
    using ok valid by (auto simp: initiateUpload_def Let_def save_def)
  have w': "w' = logCall (StorageGetUploadUrl (toStorageMetadata request (Some (randomUUID env))))
                   (logCall (RepoSave ?entity) (w\<lparr>db := (db w)(randomUUID env \<mapsto> ?entity)\<rparr>))"
    using ok valid nofail
    by (auto simp: initiateUpload_def Let_def save_def requestUploadUrl_def toMediaEntity_def
          split: sum.splits)
  have "newEvents w w' = [RepoSave ?entity,
            StorageGetUploadUrl (toStorageMetadata request (Some (randomUUID env)))]"
    by (rule newEvents_append) (simp add: w' logCall_def)
  moreover have "me_id ?entity = randomUUID env" "me_status ?entity = Pending"
    by (simp_all add: toMediaEntity_def)
  moreover have "db w' (randomUUID env) = Some ?entity"
    by (simp add: w' logCall_def)
  ultimately show "\<exists>entity.
         newEvents w w' =
           [RepoSave entity,
            StorageGetUploadUrl (toStorageMetadata request (Some (randomUUID env)))] \<and>
         me_id entity = randomUUID env \<and> me_status entity = Pending \<and>
         db w' (randomUUID env) = Some entity"
    by blast
qed

lemma initiateUpload_example:
  "initiateUpload exampleConfig (exampleEnv (exampleStorage 1000 (Inr True) (Inr True)) 100)
     (exampleRequest 1000) emptyWorld =
   (Inr \<lparr>up_uploadId = ''f1'', up_url = ''https://bucket/uploads/f1'', up_expires = 900000\<rparr>,
    \<lparr>db = [''f1'' \<mapsto> (toMediaEntity 100 101 (exampleRequest 1000) ''f1'')
                          \<lparr>me_updatedAt := Some 102\<rparr>],
     trace = [RepoSave ((toMediaEntity 100 101 (exampleRequest 1000) ''f1'')
                          \<lparr>me_updatedAt := Some 102\<rparr>),
              StorageGetUploadUrl (toStorageMetadata (exampleRequest 1000) (Some ''f1''))]\<rparr>)"
  by (simp add: engine_defs)

theorem initiateUpload_validates_first_witness:
  "req_size (exampleRequest 200000000) > maxFileSize exampleConfig \<and>
   initiateUpload exampleConfig (exampleEnv (exampleStorage 1000 (Inr True) (Inr True)) 100)
     (exampleRequest 200000000) emptyWorld = (Inl ValidationError, emptyWorld) \<and>
   (\<exists>response w' entity.
      initiateUpload exampleConfig (exampleEnv (exampleStorage 1000 (Inr True) (Inr True)) 100)
        (exampleRequest 1000) emptyWorld = (Inr response, w') \<and>
      newEvents emptyWorld w' =
        [RepoSave entity,
         StorageGetUploadUrl (toStorageMetadata (exampleRequest 1000) (Some ''f1''))] \<and>
      me_status entity = Pending \<and> db w' ''f1'' = Some entity)"
proof -
  let ?env = "exampleEnv (exampleStorage 1000 (Inr True) (Inr True)) 100"
  have uuid: "randomUUID ?env = ''f1''" by (simp add: exampleEnv_def)
  have big: "req_size (exampleRequest 200000000) > maxFileSize exampleConfig"
    by (simp add: exampleRequest_def exampleConfig_def)
  from initiateUpload_validates_first [of "exampleRequest 200000000" exampleConfig ?env emptyWorld]
    big
  have a: "initiateUpload exampleConfig ?env (exampleRequest 200000000) emptyWorld
           = (Inl ValidationError, emptyWorld)"
    by blast
  obtain response w'
    where ok: "initiateUpload exampleConfig ?env (exampleRequest 1000) emptyWorld
               = (Inr response, w')"
    using initiateUpload_example by simp
  from initiateUpload_validates_first [of "exampleRequest 1000" exampleConfig ?env emptyWorld] ok
  obtain entity where "newEvents emptyWorld w' =
        [RepoSave entity,
         StorageGetUploadUrl (toStorageMetadata (exampleRequest 1000) (Some ''f1''))]"
    and "me_status entity = Pending" and "db w' ''f1'' = Some entity"
    unfolding uuid by blast
  then show ?thesis using big a ok by blast
qed

subsection \<open>completeUpload\<close>

lemma completeUpload_finish_not_validation:
  "fst (completeUpload_finish env uploadId original mediaEntity w) \<noteq> Inl ValidationError"
  by (simp add: completeUpload_finish_def Let_def save_def split: prod.splits sum.splits if_splits)

lemma completeUpload_reconcile_validation:
  "(fst (completeUpload_reconcile env uploadId original uploaded w) = Inl ValidationError) =
   (validateUploadedFile original uploaded = Inl ValidationError)"
proof (cases "validateUploadedFile original uploaded")
  case (Inl e)
  then show ?thesis by (simp add: completeUpload_reconcile_def)
next
  case (Inr u)
  then show ?thesis
    using completeUpload_finish_not_validation
    by (simp add: completeUpload_reconcile_def Let_def save_def)
qed

text \<open>
  C1, as stated, fails: sizes are JavaScript numbers, the request validation does not
  ask for a whole number, and the tolerance \<open>d * 0.1\<close> is a rounded product. With the
  declared size \<open>6757109792476729 / 2^39\<close> and 11062 bytes stored, \<open>|d - a|\<close> is above
  \<open>0.10 * d\<close> and above 1024, and \<open>completeUpload\<close> raises no validation error.
\<close>

theorem completeUpload_size_check_rounds:
  "fst (completeUpload (exampleEnv (exampleStorage 11062 (Inr True) (Inr True)) 200) ''f1''
          (pendingWorld (6757109792476729 / 549755813888))) \<noteq> Inl ValidationError \<and>
   \<bar>6757109792476729 / 549755813888 - 11062\<bar> > 0.10 * (6757109792476729 / 549755813888 :: real) \<and>
   \<bar>6757109792476729 / 549755813888 - 11062\<bar> > (1024 :: real)"
proof -
  let ?env = "exampleEnv (exampleStorage 11062 (Inr True) (Inr True)) 200"
  let ?w = "pendingWorld (6757109792476729 / 549755813888)"
  let ?uploaded = "\<lparr>sm_id = ''f1'', sm_originalName = ''photo.jpg'', sm_mimeType = ''image/jpeg'',
                    sm_size = 11062, sm_key = ''uploads/'' @ ''f1'' @ ''/photo.jpg'',
                    sm_bucket = ''bucket'', sm_uploadedAt = Some 150, sm_status = Uploaded\<rparr>"
  have v: "validateUploadedFile (the (db ?w ''f1'')) ?uploaded = Inr ()"
    by (rule validateUploadedFile_fraction)
       (simp_all add: pendingWorld_def toMediaEntity_def exampleRequest_def)
  have "fst (completeUpload ?env ''f1'' ?w)
        = fst (completeUpload_reconcile ?env ''f1'' (the (db ?w ''f1'')) ?uploaded
                 (logCall (StorageGetMetadata ''f1'')
                    (logCall (StorageVerifyUpload ''f1'') (logCall (RepoFindById ''f1'') ?w))))"
    by (simp add: completeUpload_def findById_def Let_def exampleEnv_def exampleStorage_def
          pendingWorld_def)
  hence "fst (completeUpload ?env ''f1'' ?w) \<noteq> Inl ValidationError"
    using v by (simp add: completeUpload_reconcile_validation)
  thus ?thesis by simp
qed

text \<open>
  C1, amended. In \<open>completeUpload\<close>, when the record exists and the stored object
  exists, and the declared size \<open>d\<close> and the actual size \<open>a\<close> are whole numbers of at
  most \<open>2^50\<close> in absolute value: the call raises a validation error if and only if
  \<open>|d - a| > 0.10 * d\<close> and \<open>|d - a| > 1024\<close> both hold. Declared 100000 with actual
  89000 fails; declared 1000 with actual 1200 passes.
\<close>

theorem completeUpload_size_check:
  assumes "\<not> dbFails env 0"
    and "db w uploadId = Some original"
    and "sp_verifyUpload (storageProvider env) uploadId = Inr True"
    and "sp_getMetadata (storageProvider env) uploadId = Inr uploaded"
    and "me_size original = of_int d" and "\<bar>d\<bar> \<le> 2 ^ 50"
    and "sm_size uploaded = of_int a" and "\<bar>a\<bar> \<le> 2 ^ 50"
  shows "(fst (completeUpload env uploadId w) = Inl ValidationError) =
           (\<bar>me_size original - sm_size uploaded\<bar> > 0.10 * me_size original \<and>
            \<bar>me_size original - sm_size uploaded\<bar> > 1024)"
proof -
  have "(fst (completeUpload env uploadId w) = Inl ValidationError) =
          (validateUploadedFile original uploaded = Inl ValidationError)"
    using assms(1-4)
    by (simp add: completeUpload_def findById_def Let_def completeUpload_reconcile_validation
          logCall_def)
  thus ?thesis
    using validateUploadedFile_whole [OF assms(5) assms(7) assms(6) assms(8)] by simp
qed

theorem completeUpload_size_check_witness:
  "\<not> dbFails (exampleEnv (exampleStorage 89000 (Inr True) (Inr True)) 200) 0 \<and>
   db (pendingWorld 100000) ''f1'' \<noteq> None \<and>
   fst (completeUpload (exampleEnv (exampleStorage 89000 (Inr True) (Inr True)) 200) ''f1''
          (pendingWorld 100000)) = Inl ValidationError \<and>
   fst (completeUpload (exampleEnv (exampleStorage 1200 (Inr True) (Inr True)) 200) ''f1''
          (pendingWorld 1000)) \<noteq> Inl ValidationError"
  using completeUpload_size_check
      [of "exampleEnv (exampleStorage 89000 (Inr True) (Inr True)) 200"
          "pendingWorld 100000" "''f1''" "the (db (pendingWorld 100000) ''f1'')"
          "\<lparr>sm_id = ''f1'', sm_originalName = ''photo.jpg'', sm_mimeType = ''image/jpeg'',
            sm_size = 89000, sm_key = ''uploads/'' @ ''f1'' @ ''/photo.jpg'',
            sm_bucket = ''bucket'', sm_uploadedAt = Some 150, sm_status = Uploaded\<rparr>"
          100000 89000]
    completeUpload_size_check
      [of "exampleEnv (exampleStorage 1200 (Inr True) (Inr True)) 200"
          "pendingWorld 1000" "''f1''" "the (db (pendingWorld 1000) ''f1'')"
          "\<lparr>sm_id = ''f1'', sm_originalName = ''photo.jpg'', sm_mimeType = ''image/jpeg'',
            sm_size = 1200, sm_key = ''uploads/'' @ ''f1'' @ ''/photo.jpg'',
            sm_bucket = ''bucket'', sm_uploadedAt = Some 150, sm_status = Uploaded\<rparr>"
          1000 1200]
  by (simp add: exampleEnv_def exampleStorage_def pendingWorld_def toMediaEntity_def
        exampleRequest_def)

text \<open>
  \<open>S3StorageProvider.validateFileContent\<close> answers \<open>false\<close> when fetching or reading the
  bytes fails, and otherwise what the signature check says.
\<close>

lemma S3_validateFileContent_cases:
  "S3_validateFileContent metadataResult (Inl e) expectedMimeType = Inr False"
  "S3_validateFileContent (Inl e) bodyResult expectedMimeType = Inr False"
  "S3_validateFileContent (Inr metadata) (Inr (Some buffer)) expectedMimeType
   = Inr (validateFileContent (Some buffer) expectedMimeType)"
  by (simp_all add: S3_validateFileContent_def split: sum.splits)

text \<open>
  C2. In \<open>completeUpload\<close>, once the record has been saved with status \<open>uploaded\<close>, the
  final status is \<open>validated\<close> when content validation reports a match, and \<open>invalid\<close>
  both when it reports a mismatch and when it throws (an I/O failure while sampling the
  bytes). In each of the three cases the final status is written to the store after
  \<open>uploaded\<close> and the call returns a result carrying it, not an error. The assumptions
  say that the record and the object exist, that the size check passes, and that the
  repository's calls themselves succeed.
\<close>

theorem completeUpload_final_status:
  assumes "\<not> dbFails env 0"
    and "db w uploadId = Some original"
    and "sp_verifyUpload (storageProvider env) uploadId = Inr True"
    and "sp_getMetadata (storageProvider env) uploadId = Inr uploaded"
    and "validateUploadedFile original uploaded = Inr ()"
    and "\<not> dbFails env 1"
    and "\<not> dbFails env 2"
  defines "final \<equiv>
     (case sp_validateFileContent (storageProvider env) uploadId (me_mimeType original) of
        Inl e \<Rightarrow> Invalid
      | Inr False \<Rightarrow> Invalid
      | Inr True \<Rightarrow> Validated)"
  shows "\<exists>dto w' entity.
           completeUpload env uploadId w = (Inr dto, w') \<and> dto_status dto = final \<and>
           db w' (sm_id uploaded) = Some entity \<and> me_status entity = final \<and>
           savedStatuses (newEvents w w') = [Uploaded, final]"
proof (cases "sp_validateFileContent (storageProvider env) uploadId (me_mimeType original)")
  case (Inl e)
  then show ?thesis
    using assms
    by (simp add: completeUpload_def completeUpload_reconcile_def completeUpload_finish_def
          findById_def save_def logCall_def Let_def newEvents_def
          StorageMapper_toFileMetadataDto_def toMediaEntityFromStorage_def)
next
  case (Inr b)
  then show ?thesis
    using assms
    by (cases b)
       (simp_all add: completeUpload_def completeUpload_reconcile_def completeUpload_finish_def
          findById_def save_def logCall_def Let_def newEvents_def
          StorageMapper_toFileMetadataDto_def toMediaEntityFromStorage_def split: sum.splits)
qed

text \<open>
  The three outcomes of content validation on the state with one pending record: a thrown
  error and a mismatch end in \<open>invalid\<close>, a match in \<open>validated\<close>, each time as a
  successful result.
\<close>

theorem completeUpload_final_status_witness:
  "\<not> dbFails (exampleEnv (exampleStorage 1000 (Inl OtherError) (Inr True)) 200) 0 \<and>
   \<not> dbFails (exampleEnv (exampleStorage 1000 (Inl OtherError) (Inr True)) 200) 1 \<and>
   \<not> dbFails (exampleEnv (exampleStorage 1000 (Inl OtherError) (Inr True)) 200) 2 \<and>
   db (pendingWorld 1000) ''f1'' \<noteq> None \<and>
   (\<exists>dto w' entity.
      completeUpload (exampleEnv (exampleStorage 1000 (Inl OtherError) (Inr True)) 200) ''f1''
        (pendingWorld 1000) = (Inr dto, w') \<and>
      dto_status dto = Invalid \<and> db w' ''f1'' = Some entity \<and> me_status entity = Invalid \<and>
      savedStatuses (newEvents (pendingWorld 1000) w') = [Uploaded, Invalid]) \<and>
   (\<exists>dto w' entity.
      completeUpload (exampleEnv (exampleStorage 1000 (Inr False) (Inr True)) 200) ''f1''
        (pendingWorld 1000) = (Inr dto, w') \<and>
      dto_status dto = Invalid \<and> db w' ''f1'' = Some entity \<and> me_status entity = Invalid \<and>
      savedStatuses (newEvents (pendingWorld 1000) w') = [Uploaded, Invalid]) \<and>
   (\<exists>dto w' entity.
      completeUpload (exampleEnv (exampleStorage 1000 (Inr True) (Inr True)) 200) ''f1''
        (pendingWorld 1000) = (Inr dto, w') \<and>
      dto_status dto = Validated \<and> db w' ''f1'' = Some entity \<and>
      me_status entity = Validated \<and>
      savedStatuses (newEvents (pendingWorld 1000) w') = [Uploaded, Validated])"
  using completeUpload_final_status
      [of "exampleEnv (exampleStorage 1000 (Inl OtherError) (Inr True)) 200"
          "pendingWorld 1000" "''f1''" "the (db (pendingWorld 1000) ''f1'')"
          "\<lparr>sm_id = ''f1'', sm_originalName = ''photo.jpg'', sm_mimeType = ''image/jpeg'',
            sm_size = 1000, sm_key = ''uploads/'' @ ''f1'' @ ''/photo.jpg'',
            sm_bucket = ''bucket'', sm_uploadedAt = Some 150, sm_status = Uploaded\<rparr>"]
    completeUpload_final_status
      [of "exampleEnv (exampleStorage 1000 (Inr False) (Inr True)) 200"
          "pendingWorld 1000" "''f1''" "the (db (pendingWorld 1000) ''f1'')"
          "\<lparr>sm_id = ''f1'', sm_originalName = ''photo.jpg'', sm_mimeType = ''image/jpeg'',
            sm_size = 1000, sm_key = ''uploads/'' @ ''f1'' @ ''/photo.jpg'',
            sm_bucket = ''bucket'', sm_uploadedAt = Some 150, sm_status = Uploaded\<rparr>"]
    completeUpload_final_status
      [of "exampleEnv (exampleStorage 1000 (Inr True) (Inr True)) 200"
          "pendingWorld 1000" "''f1''" "the (db (pendingWorld 1000) ''f1'')"
          "\<lparr>sm_id = ''f1'', sm_originalName = ''photo.jpg'', sm_mimeType = ''image/jpeg'',
            sm_size = 1000, sm_key = ''uploads/'' @ ''f1'' @ ''/photo.jpg'',
            sm_bucket = ''bucket'', sm_uploadedAt = Some 150, sm_status = Uploaded\<rparr>"]
  by (simp add: exampleEnv_def exampleStorage_def pendingWorld_def toMediaEntity_def
        exampleRequest_def validateUploadedFile_same_size)

text \<open>
  When the second save itself fails, the record stays \<open>uploaded\<close> and the
  \<open>DatabaseError\<close> is raised.
\<close>

lemma completeUpload_second_save_fails:
  assumes "\<not> dbFails env 0"
    and "db w uploadId = Some original"
    and "sp_verifyUpload (storageProvider env) uploadId = Inr True"
    and "sp_getMetadata (storageProvider env) uploadId = Inr uploaded"
    and "validateUploadedFile original uploaded = Inr ()"
    and "\<not> dbFails env 1"
    and "dbFails env 2"
  shows "fst (completeUpload env uploadId w) = Inl DatabaseError \<and>
         savedStatuses (newEvents w (snd (completeUpload env uploadId w))) = [Uploaded]"
  using assms
  by (simp add: completeUpload_def completeUpload_reconcile_def completeUpload_finish_def
        findById_def save_def logCall_def Let_def newEvents_def toMediaEntityFromStorage_def)

subsection \<open>deleteFile\<close>

text \<open>
  C6. \<open>deleteFile\<close> always asks the storage to delete and then the repository, whatever
  the storage answered. When the repository does not fail, the record of the id is gone
  afterwards, every other record is kept, and the result is true exactly when the storage
  deletion returned true and the metadata deletion removed a record (\<open>deletedCount > 0\<close>:
  there was a record of the id). When the storage deletion throws, the error is not
  raised: the metadata deletion is still made, and the result is false even though the
  record is gone. Only a failure of the repository itself is raised.
\<close>

theorem deleteFile_both:
  "(\<not> dbFails env 0 \<longrightarrow>
      fst (deleteFile env fileId w) =
        Inr (sp_deleteFile (storageProvider env) fileId = Inr True \<and> db w fileId \<noteq> None) \<and>
      db (snd (deleteFile env fileId w)) = (db w)(fileId := None) \<and>
      newEvents w (snd (deleteFile env fileId w)) =
        [StorageDeleteFile fileId, RepoDeleteById fileId]) \<and>
   (dbFails env 0 \<longrightarrow>
      fst (deleteFile env fileId w) = Inl DatabaseError \<and>
      db (snd (deleteFile env fileId w)) = db w \<and>
      newEvents w (snd (deleteFile env fileId w)) = [StorageDeleteFile fileId, RepoFailed]) \<and>
   (fst (deleteFile env fileId w) = Inr True) =
     (sp_deleteFile (storageProvider env) fileId = Inr True \<and> \<not> dbFails env 0 \<and>
      db w fileId \<noteq> None) \<and>
   (\<forall>e. sp_deleteFile (storageProvider env) fileId = Inl e \<longrightarrow>
      fst (deleteFile env fileId w) = (if dbFails env 0 then Inl DatabaseError else Inr False) \<and>
      (\<not> dbFails env 0 \<longrightarrow>
         db (snd (deleteFile env fileId w)) fileId = None \<and>
         newEvents w (snd (deleteFile env fileId w)) =
           [StorageDeleteFile fileId, RepoDeleteById fileId]))"
  by (cases "sp_deleteFile (storageProvider env) fileId")
     (auto simp: deleteFile_def deleteById_def logCall_def Let_def newEvents_def)

text \<open>
  A storage deletion that throws, and one that returns true, on the state with one
  record: false and true, and the record is gone both times. With a repository that
  fails, the error is raised and the record stays.
\<close>

theorem deleteFile_both_witness:
  "sp_deleteFile (storageProvider (exampleEnv (exampleStorage 1000 (Inr True) (Inl StorageError)) 300))
     ''f1'' = Inl StorageError \<and>
   \<not> dbFails (exampleEnv (exampleStorage 1000 (Inr True) (Inl StorageError)) 300) 0 \<and>
   db (pendingWorld 1000) ''f1'' \<noteq> None \<and>
   fst (deleteFile (exampleEnv (exampleStorage 1000 (Inr True) (Inl StorageError)) 300) ''f1''
          (pendingWorld 1000)) = Inr False \<and>
   db (snd (deleteFile (exampleEnv (exampleStorage 1000 (Inr True) (Inl StorageError)) 300) ''f1''
              (pendingWorld 1000))) ''f1'' = None \<and>
   fst (deleteFile (exampleEnv (exampleStorage 1000 (Inr True) (Inr True)) 300) ''f1''
          (pendingWorld 1000)) = Inr True \<and>
   db (snd (deleteFile (exampleEnv (exampleStorage 1000 (Inr True) (Inr True)) 300) ''f1''
              (pendingWorld 1000))) ''f1'' = None \<and>
   newEvents (pendingWorld 1000)
     (snd (deleteFile (exampleEnv (exampleStorage 1000 (Inr True) (Inr True)) 300) ''f1''
             (pendingWorld 1000))) = [StorageDeleteFile ''f1'', RepoDeleteById ''f1''] \<and>
   dbFails ((exampleEnv (exampleStorage 1000 (Inr True) (Inr True)) 300)
              \<lparr>dbFails := (\<lambda>k. True)\<rparr>) 0 \<and>
   fst (deleteFile ((exampleEnv (exampleStorage 1000 (Inr True) (Inr True)) 300)
                      \<lparr>dbFails := (\<lambda>k. True)\<rparr>) ''f1'' (pendingWorld 1000))
     = Inl DatabaseError \<and>
   db (snd (deleteFile ((exampleEnv (exampleStorage 1000 (Inr True) (Inr True)) 300)
                          \<lparr>dbFails := (\<lambda>k. True)\<rparr>) ''f1'' (pendingWorld 1000))) ''f1''
     \<noteq> None"
  using deleteFile_both
      [of "exampleEnv (exampleStorage 1000 (Inr True) (Inl StorageError)) 300" "''f1''"
          "pendingWorld 1000"]
    deleteFile_both
      [of "exampleEnv (exampleStorage 1000 (Inr True) (Inr True)) 300" "''f1''"
          "pendingWorld 1000"]
    deleteFile_both
      [of "(exampleEnv (exampleStorage 1000 (Inr True) (Inr True)) 300)
             \<lparr>dbFails := (\<lambda>k. True)\<rparr>" "''f1''" "pendingWorld 1000"]
  by (simp add: exampleEnv_def exampleStorage_def pendingWorld_def)

subsection \<open>searchFiles\<close>

lemma searchLoop_trace:
  "\<exists>dtos evs. searchLoop env includeUrls entities w = (dtos, w\<lparr>trace := trace w @ evs\<rparr>) \<and>
              savedStatuses evs = []"
proof (induction entities arbitrary: w)
  case Nil
  have "searchLoop env includeUrls [] w = ([], w\<lparr>trace := trace w @ []\<rparr>)" by simp
  then show ?case by (metis savedStatuses.simps(1))
next
  case (Cons entity rest)
  show ?case
  proof (cases "includeUrls \<and> me_status entity = Validated")
    case True
    let ?w1 = "logCall (StorageGetDownloadUrl (me_id entity)) w"
    from Cons.IH [of ?w1] obtain dtos evs
      where r: "searchLoop env includeUrls rest ?w1 = (dtos, ?w1\<lparr>trace := trace ?w1 @ evs\<rparr>)"
        and s: "savedStatuses evs = []" by blast
    have "?w1\<lparr>trace := trace ?w1 @ evs\<rparr>
          = w\<lparr>trace := trace w @ (StorageGetDownloadUrl (me_id entity) # evs)\<rparr>"
      by (simp add: logCall_def)
    moreover have "savedStatuses (StorageGetDownloadUrl (me_id entity) # evs) = []"
      using s by simp
    ultimately show ?thesis using True r by (auto simp: Let_def)
  next
    case False
    from Cons.IH [of w] obtain dtos evs
      where r: "searchLoop env includeUrls rest w = (dtos, w\<lparr>trace := trace w @ evs\<rparr>)"
        and s: "savedStatuses evs = []" by blast
    then show ?thesis using False by (auto simp: Let_def)
  qed
qed

text \<open>What the service makes of the filter the controller built.\<close>

lemma controllerFilter_limit:
  "(case f_limit (controllerFilter parseInt params) of
      None \<Rightarrow> Finite 20 | Some l \<Rightarrow> if truthyNumber l then l else Finite 20)
   = requestedLimit parseInt params"
proof (cases "p_limit params")
  case None
  then show ?thesis by (simp add: controllerFilter_def requestedLimit_def)
next
  case (Some s)
  then show ?thesis
    by (cases "parseInt s") (simp_all add: controllerFilter_def requestedLimit_def Let_def)
qed

lemma controllerFilter_page:
  "(case f_page (controllerFilter parseInt params) of
      None \<Rightarrow> Finite 1 | Some p \<Rightarrow> if truthyNumber p then p else Finite 1)
   = requestedPage parseInt params"
proof (cases "p_page params")
  case None
  then show ?thesis by (simp add: controllerFilter_def requestedPage_def)
next
  case (Some s)
  then show ?thesis
    by (cases "parseInt s") (simp_all add: controllerFilter_def requestedPage_def Let_def)
qed

lemma controllerFilter_sort:
  "((case f_sortBy (controllerFilter parseInt params) of
       None \<Rightarrow> ''createdAt'' | Some s \<Rightarrow> if s = [] then ''createdAt'' else s),
    (if f_sortOrder (controllerFilter parseInt params) = Some Asc then 1 else - 1))
   = requestedSort params"
  by (simp add: controllerFilter_def requestedSort_def split: option.splits)

text \<open>The limit of a request is a number above 0 and at most 100; the page is above 0.\<close>

lemma requestedLimit_range:
  "\<exists>r. requestedLimit parseInt params = Finite r \<and> 0 < r \<and> r \<le> 100"
proof (cases "p_limit params")
  case None
  then show ?thesis by (simp add: requestedLimit_def)
next
  case (Some s)
  then show ?thesis by (cases "parseInt s") (simp_all add: requestedLimit_def)
qed

lemma requestedPage_range:
  "requestedPage parseInt params = Finite r \<Longrightarrow> 0 < r"
proof (cases "p_page params")
  case None
  assume "requestedPage parseInt params = Finite r"
  with None show ?thesis by (simp add: requestedPage_def)
next
  case (Some s)
  assume "requestedPage parseInt params = Finite r"
  with Some show ?thesis
    by (cases "parseInt s") (auto simp: requestedPage_def split: if_splits)
qed

text \<open>
  The answer of \<open>searchFiles\<close> in the arithmetic of doubles, for every filter: the page and
  the limit with their defaults, the skip, the number of pages, and the two flags.
\<close>

lemma searchFiles_numbers:
  fixes env :: Env and fltr :: MediaFilter
  assumes "\<not> dbFails env 0" and "\<not> dbFails env 1"
  defines "limit \<equiv> (case f_limit fltr of
                       None \<Rightarrow> Finite 20 | Some l \<Rightarrow> if truthyNumber l then l else Finite 20)"
    and "page \<equiv> (case f_page fltr of
                    None \<Rightarrow> Finite 1 | Some p \<Rightarrow> if truthyNumber p then p else Finite 1)"
    and "query \<equiv> buildQuery fltr"
  defines "options \<equiv>
             \<lparr>o_limit = limit, o_skip = jsMul (jsSub page (Finite 1)) limit,
              o_sort = ((case f_sortBy fltr of
                           None \<Rightarrow> ''createdAt'' | Some s \<Rightarrow> if s = [] then ''createdAt'' else s),
                        (if f_sortOrder fltr = Some Asc then 1 else - 1))\<rparr>"
    and "totalPages \<equiv> Math_ceil (jsDiv (mongoCount env query) limit)"
  shows "\<exists>items evs.
           searchFiles env fltr includeUrls w =
             (Inr \<lparr>res_items = items,
                   res_pagination =
                     \<lparr>pg_currentPage = page, pg_totalPages = totalPages,
                      pg_totalItems = mongoCount env query, pg_limit = limit,
                      pg_hasNextPage = jsLess page totalPages,
                      pg_hasPreviousPage = jsLess (Finite 1) page\<rparr>\<rparr>,
              w\<lparr>trace := trace w @ RepoCount query # RepoFind query options # evs\<rparr>) \<and>
           (mongoFind env query options = [] \<longrightarrow> evs = [])"
proof -
  let ?w2 = "logCall (RepoFind query options) (logCall (RepoCount query) w)"
  from searchLoop_trace [of env includeUrls "mongoFind env query options" ?w2]
  obtain dtos evs
    where r: "searchLoop env includeUrls (mongoFind env query options) ?w2
              = (dtos, ?w2\<lparr>trace := trace ?w2 @ evs\<rparr>)" by blast
  have e: "mongoFind env query options = [] \<longrightarrow> evs = []"
  proof
    assume "mongoFind env query options = []"
    with r have "?w2 = ?w2\<lparr>trace := trace ?w2 @ evs\<rparr>" by simp
    then have "trace ?w2 = trace (?w2\<lparr>trace := trace ?w2 @ evs\<rparr>)" by simp
    then show "evs = []" by simp
  qed
  have "searchFiles env fltr includeUrls w =
          (Inr \<lparr>res_items = dtos,
                res_pagination =
                  \<lparr>pg_currentPage = page, pg_totalPages = totalPages,
                   pg_totalItems = mongoCount env query, pg_limit = limit,
                   pg_hasNextPage = jsLess page totalPages,
                   pg_hasPreviousPage = jsLess (Finite 1) page\<rparr>\<rparr>,
           w\<lparr>trace := trace w @ RepoCount query # RepoFind query options # evs\<rparr>)"
    using assms(1,2) r
    unfolding searchFiles_def Let_def limit_def page_def query_def options_def totalPages_def
    by (simp add: count_repo_def find_repo_def logCall_def)
  with e show ?thesis by blast
qed

text \<open>On whole numbers in range the arithmetic of doubles is exact.\<close>

lemma toNumber_numeral:
  "(numeral k :: int) \<le> 2 ^ 53 \<Longrightarrow> toNumber (numeral k) = Finite (numeral k)"
  using toNumber_of_int [of "numeral k"] by simp

lemma toNumber_zero: "toNumber 0 = Finite 0"
  using toNumber_of_int [of 0] by simp

lemma toNumber_one: "toNumber 1 = Finite 1"
  using toNumber_of_int [of 1] by simp

lemma skip_exact:
  fixes page limit :: int
  assumes "1 \<le> page" and "page \<le> 2 ^ 45" and "1 \<le> limit" and "limit \<le> 100"
  shows "jsMul (jsSub (Finite (of_int page)) (Finite 1)) (Finite (of_int limit))
         = Finite (of_int ((page - 1) * limit))"
proof -
  have "\<bar>page - 1\<bar> \<le> 2 ^ 53" using assms(1,2) by simp
  from toNumber_of_int [OF this]
  have s: "toNumber (real_of_int page - 1) = Finite (real_of_int page - 1)" by simp
  have "(page - 1) * limit \<le> 2 ^ 45 * 100"
    using assms by (intro mult_mono) simp_all
  moreover have "0 \<le> (page - 1) * limit" using assms(1,3) by simp
  ultimately have "\<bar>(page - 1) * limit\<bar> \<le> 2 ^ 53" by simp
  from toNumber_of_int [OF this]
  have m: "toNumber ((real_of_int page - 1) * real_of_int limit)
           = Finite ((real_of_int page - 1) * real_of_int limit)" by simp
  show ?thesis by (simp add: s m)
qed

lemma hundredth_normal: "2 powi (- 1022) \<le> (1 / 100 :: real)"
proof -
  have "(2::real) powi (- 1022) \<le> 2 powi (- 7)"
    by (intro power_int_increasing) simp_all
  also have "\<dots> \<le> 1 / 100" by (simp add: power_int_minus_divide)
  finally show ?thesis .
qed

lemma totalPages_exact:
  fixes totalItems limit :: int
  assumes "0 \<le> totalItems" and "totalItems \<le> 2 ^ 45" and "1 \<le> limit" and "limit \<le> 100"
  shows "Math_ceil (jsDiv (Finite (of_int totalItems)) (Finite (of_int limit)))
         = Finite (of_int \<lceil>real_of_int totalItems / real_of_int limit\<rceil>)"
proof (cases "totalItems = 0")
  case True
  then show ?thesis using assms(3) by (simp add: toNumber_zero)
next
  case False
  let ?t = "real_of_int totalItems" and ?l = "real_of_int limit"
  let ?x = "?t / ?l"
  define K where "K = \<lceil>?x\<rceil>"
  have t1: "1 \<le> ?t" using False assms(1) by simp
  have tle: "?t \<le> 2 ^ 45"
    using assms(2) by (metis of_int_le_iff of_int_numeral of_int_power)
  have l1: "1 \<le> ?l" and lle: "?l \<le> 100" using assms(3,4) by simp_all
  have lpos: "0 < ?l" using l1 by simp
  have xlow: "1 / 100 \<le> ?x"
  proof -
    have "1 / 100 \<le> 1 / ?l" using l1 lle by (simp add: field_simps)
    also have "\<dots> \<le> ?x" using t1 lpos by (simp add: divide_right_mono)
    finally show ?thesis .
  qed
  have xup: "?x \<le> 2 ^ 45"
  proof -
    have "?x \<le> ?t / 1" using l1 t1 by (intro divide_left_mono) simp_all
    then show ?thesis using tle by simp
  qed
  have norm: "2 powi (- 1022) \<le> \<bar>?x\<bar>" using hundredth_normal xlow by linarith
  have "\<bar>?x\<bar> \<le> 2 ^ 1023"
  proof -
    have "(2::real) ^ 45 \<le> 2 ^ 1023" by simp
    then show ?thesis using xup xlow by linarith
  qed
  with norm have fin: "toNumber ?x = Finite (binary64 ?x)" by (rule toNumber_normal)
  have err: "\<bar>binary64 ?x - ?x\<bar> \<le> 1 / 256"
  proof -
    have "\<bar>binary64 ?x - ?x\<bar> \<le> \<bar>?x\<bar> / 2 ^ 53" by (rule binary64_error [OF norm])
    also have "\<dots> \<le> 2 ^ 45 / 2 ^ 53" using xup xlow by (simp add: divide_right_mono)
    also have "\<dots> = 1 / 256" by simp
    finally show ?thesis .
  qed
  have "\<lceil>binary64 ?x\<rceil> = K"
  proof (cases "?x = of_int K")
    case True
    have "0 < ?x" using xlow by linarith
    hence "0 < K" unfolding K_def by (simp only: zero_less_ceiling)
    hence "0 \<le> K" by simp
    moreover have "real_of_int K \<le> 2 ^ 45" using True xup by simp
    hence "K \<le> 2 ^ 45" by (metis of_int_le_iff of_int_numeral of_int_power)
    ultimately have "\<bar>K\<bar> \<le> 2 ^ 53" by simp
    hence "binary64 (of_int K) = of_int K" by (rule binary64_of_int)
    then show ?thesis using True by simp
  next
    case False
    have up: "?x \<le> of_int K" unfolding K_def by (rule le_of_int_ceiling)
    with False have "?x < of_int K" by simp
    hence "?t < of_int K * ?l" using lpos by (simp add: field_simps)
    hence "?t < real_of_int (K * limit)" by simp
    hence "totalItems < K * limit" by (simp only: of_int_less_iff)
    hence "totalItems + 1 \<le> K * limit" by simp
    hence "real_of_int (totalItems + 1) \<le> real_of_int (K * limit)"
      by (simp only: of_int_le_iff)
    hence "?t + 1 \<le> of_int K * ?l" by simp
    hence "?x + 1 / ?l \<le> of_int K" using lpos by (simp add: field_simps)
    moreover have "1 / 100 \<le> 1 / ?l" using l1 lle by (simp add: field_simps)
    ultimately have a: "?x + 1 / 100 \<le> of_int K" by linarith
    have "of_int K - 1 < ?x" unfolding K_def by linarith
    hence "(of_int K - 1) * ?l < ?t" using lpos by (simp add: field_simps)
    hence "real_of_int ((K - 1) * limit) < ?t" by simp
    hence "(K - 1) * limit < totalItems" by (simp only: of_int_less_iff)
    hence "(K - 1) * limit + 1 \<le> totalItems" by simp
    hence "real_of_int ((K - 1) * limit + 1) \<le> ?t" by (simp only: of_int_le_iff)
    hence "(of_int K - 1) * ?l + 1 \<le> ?t" by simp
    hence "((of_int K - 1) * ?l + 1) / ?l \<le> ?x" using lpos by (simp add: divide_right_mono)
    moreover have "((of_int K - 1) * ?l + 1) / ?l = of_int K - 1 + 1 / ?l"
      using lpos by (simp add: add_divide_distrib)
    ultimately have "of_int K - 1 + 1 / ?l \<le> ?x" by simp
    with \<open>1 / 100 \<le> 1 / ?l\<close> have b: "of_int K - 1 + 1 / 100 \<le> ?x" by linarith
    from a b err have "of_int K - 1 < binary64 ?x \<and> binary64 ?x \<le> of_int K"
      by (simp add: abs_if split: if_splits)
    then show ?thesis by (intro ceiling_unique) simp_all
  qed
  then show ?thesis using lpos by (simp add: fin K_def)
qed

lemma parseInt10_examples:
  "parseInt10 ''2'' = Finite 2" "parseInt10 ''10'' = Finite 10" "parseInt10 ''500'' = Finite 500"
  "parseInt10 ''abc'' = NaN" "parseInt10 '' -7x'' = Finite (- 7)" "parseInt10 [] = NaN"
  "parseInt10 ''9007199254740992'' = Finite 9007199254740992"
  using toNumber_of_int [of "- 7"]
  by (simp_all add: parseInt10_def isDigit_def isWhiteSpace_def toNumber_numeral)

text \<open>
  C7, as stated, fails: the page and the limit are JavaScript numbers, and the skip is
  the rounded product. For the request \<open>page=9007199254740992\<close> (\<open>2^53\<close>) with the default
  limit the page is 9007199254740992 and the limit 20, \<open>(page - 1) * limit\<close> is
  180143985094819820, and the skip passed to the repository is 180143985094819808.
\<close>

theorem searchFiles_skip_rounds:
  "\<exists>result.
     MediaController_searchFiles parseInt10
       (exampleEnv (exampleStorage 0 (Inr True) (Inr True)) 0)
       (exampleParams (Some ''9007199254740992'') None) emptyWorld =
     (Inr result,
      \<lparr>db = Map.empty,
       trace =
         [RepoCount (buildQuery (controllerFilter parseInt10
                       (exampleParams (Some ''9007199254740992'') None))),
          RepoFind (buildQuery (controllerFilter parseInt10
                      (exampleParams (Some ''9007199254740992'') None)))
            \<lparr>o_limit = Finite 20, o_skip = Finite 180143985094819808,
             o_sort = (''createdAt'', - 1)\<rparr>]\<rparr>) \<and>
     pg_currentPage (res_pagination result) = Finite 9007199254740992 \<and>
     pg_limit (res_pagination result) = Finite 20 \<and>
     (9007199254740992 - 1) * 20 = (180143985094819820 :: real) \<and>
     (180143985094819808 :: real) \<noteq> 180143985094819820"
proof -
  let ?env = "exampleEnv (exampleStorage 0 (Inr True) (Inr True)) 0"
  let ?params = "exampleParams (Some ''9007199254740992'') None"
  let ?fltr = "controllerFilter parseInt10 ?params"
  have a: "\<not> dbFails ?env 0" and b: "\<not> dbFails ?env 1" by (simp_all add: exampleEnv_def)
  have page: "requestedPage parseInt10 ?params = Finite 9007199254740992"
    by (simp add: requestedPage_def exampleParams_def parseInt10_examples)
  have limit: "requestedLimit parseInt10 ?params = Finite 20"
    by (simp add: requestedLimit_def exampleParams_def)
  have sort: "requestedSort ?params = (''createdAt'', - 1)"
    by (simp add: requestedSort_def exampleParams_def)
  have "binary64 180143985094819820
        = of_int (roundHalfEven (180143985094819820 * 2 powi (- 5))) / 2 powi (- 5)"
    by (rule binary64_scaled) simp_all
  also have "\<dots> = 180143985094819808" by (simp add: roundHalfEven_def)
  finally have prod: "toNumber 180143985094819820 = Finite 180143985094819808"
    by (simp add: toNumber_def)
  have skip: "jsMul (jsSub (Finite 9007199254740992) (Finite 1)) (Finite 20)
              = Finite 180143985094819808"
    by (simp add: toNumber_numeral prod)
  have none: "mongoFind ?env q opts = []" for q opts by (simp add: exampleEnv_def)
  from searchFiles_numbers [OF a b, of ?fltr "p_includeUrls ?params = Some ''true''" emptyWorld]
  show ?thesis
    unfolding controllerFilter_limit controllerFilter_page page limit skip none
      MediaController_searchFiles_def
    using controllerFilter_sort [of parseInt10 ?params]
    by (auto simp: sort emptyWorld_def)
qed

text \<open>
  C7, amended. For a search request whose page is a whole number of at most \<open>2^45\<close>
  (the limit is a whole number, so are the counts, at most \<open>2^45\<close>), the answer has
  \<open>skip = (page - 1) * limit\<close>, \<open>totalPages = ceil(totalItems / limit)\<close>,
  \<open>hasNextPage = (page < totalPages)\<close> and \<open>hasPreviousPage = (page > 1)\<close>, where the page
  defaults to 1, the limit to 20, the sort to \<open>createdAt\<close> descending, and a limit above
  100 is clamped to 100. The limit, skip and sort are those passed to the repository's
  \<open>find\<close>. With 25 items, limit 10 and page 2: 3 pages, a next page and a previous page.
\<close>

theorem searchFiles_pagination:
  fixes parseInt :: "string \<Rightarrow> jsnumber" and params :: SearchParams and env :: Env
    and page limit totalItems :: int
  assumes "\<not> dbFails env 0" and "\<not> dbFails env 1"
    and "requestedPage parseInt params = Finite (of_int page)" and "page \<le> 2 ^ 45"
    and "requestedLimit parseInt params = Finite (of_int limit)"
    and "mongoCount env (buildQuery (controllerFilter parseInt params))
         = Finite (of_int totalItems)"
    and "0 \<le> totalItems" and "totalItems \<le> 2 ^ 45"
  defines "query \<equiv> buildQuery (controllerFilter parseInt params)"
    and "totalPages \<equiv> \<lceil>real_of_int totalItems / real_of_int limit\<rceil>"
  shows "\<exists>items w'.
           MediaController_searchFiles parseInt env params w =
             (Inr \<lparr>res_items = items,
                   res_pagination =
                     \<lparr>pg_currentPage = Finite (of_int page),
                      pg_totalPages = Finite (of_int totalPages),
                      pg_totalItems = Finite (of_int totalItems),
                      pg_limit = Finite (of_int limit),
                      pg_hasNextPage = (page < totalPages),
                      pg_hasPreviousPage = (page > 1)\<rparr>\<rparr>, w') \<and>
           RepoFind query \<lparr>o_limit = Finite (of_int limit),
                            o_skip = Finite (of_int ((page - 1) * limit)),
                            o_sort = requestedSort params\<rparr> \<in> set (newEvents w w') \<and>
           1 \<le> limit \<and> limit \<le> 100 \<and> 1 \<le> page"
proof -
  from requestedLimit_range [of parseInt params] assms(5)
  have "0 < real_of_int limit" and "real_of_int limit \<le> 100" by auto
  then have l: "1 \<le> limit" "limit \<le> 100" by simp_all
  from requestedPage_range [OF assms(3)] have p: "1 \<le> page" by simp
  note skip = skip_exact [OF p assms(4) l]
  note pages = totalPages_exact [OF assms(7,8) l]
  let ?fltr = "controllerFilter parseInt params"
  let ?inc = "p_includeUrls params = Some ''true''"
  let ?options = "\<lparr>o_limit = Finite (of_int limit), o_skip = Finite (of_int ((page - 1) * limit)),
                    o_sort = requestedSort params\<rparr>"
  from searchFiles_numbers [OF assms(1,2), of ?fltr ?inc w]
  obtain items evs
    where res: "MediaController_searchFiles parseInt env params w =
             (Inr \<lparr>res_items = items,
                   res_pagination =
                     \<lparr>pg_currentPage = Finite (of_int page),
                      pg_totalPages = Finite (of_int totalPages),
                      pg_totalItems = Finite (of_int totalItems),
                      pg_limit = Finite (of_int limit),
                      pg_hasNextPage = (page < totalPages),
                      pg_hasPreviousPage = (page > 1)\<rparr>\<rparr>,
              w\<lparr>trace := trace w @ RepoCount query # RepoFind query ?options # evs\<rparr>)"
    unfolding controllerFilter_limit controllerFilter_page assms(3,5,6) skip pages
      controllerFilter_sort MediaController_searchFiles_def query_def totalPages_def
    by auto
  have "newEvents w (w\<lparr>trace := trace w @ RepoCount query # RepoFind query ?options # evs\<rparr>)
        = RepoCount query # RepoFind query ?options # evs"
    by (simp add: newEvents_def)
  then show ?thesis
    using res l p
    by (intro exI [of _ items]
          exI [of _ "w\<lparr>trace := trace w @ RepoCount query # RepoFind query ?options # evs\<rparr>"])
       simp
qed

text \<open>
  25 items with \<open>page=2&limit=10\<close>; with \<open>limit=500\<close>, clamped to 100; and with no
  parameters, page 1 of 2 with limit 20.
\<close>

theorem searchFiles_pagination_witness:
  "\<not> dbFails (exampleEnv (exampleStorage 0 (Inr True) (Inr True)) 0) 0 \<and>
   \<not> dbFails (exampleEnv (exampleStorage 0 (Inr True) (Inr True)) 0) 1 \<and>
   requestedPage parseInt10 (exampleParams (Some ''2'') (Some ''10'')) = Finite (of_int 2) \<and>
   requestedLimit parseInt10 (exampleParams (Some ''2'') (Some ''10'')) = Finite (of_int 10) \<and>
   (\<exists>items w'.
      MediaController_searchFiles parseInt10 (exampleEnv (exampleStorage 0 (Inr True) (Inr True)) 0)
        (exampleParams (Some ''2'') (Some ''10'')) emptyWorld =
      (Inr \<lparr>res_items = items,
            res_pagination =
              \<lparr>pg_currentPage = Finite 2, pg_totalPages = Finite 3, pg_totalItems = Finite 25,
               pg_limit = Finite 10, pg_hasNextPage = True, pg_hasPreviousPage = True\<rparr>\<rparr>, w')) \<and>
   (\<exists>items w'.
      MediaController_searchFiles parseInt10 (exampleEnv (exampleStorage 0 (Inr True) (Inr True)) 0)
        (exampleParams None (Some ''500'')) emptyWorld =
      (Inr \<lparr>res_items = items,
            res_pagination =
              \<lparr>pg_currentPage = Finite 1, pg_totalPages = Finite 1, pg_totalItems = Finite 25,
               pg_limit = Finite 100, pg_hasNextPage = False, pg_hasPreviousPage = False\<rparr>\<rparr>, w')) \<and>
   (\<exists>items w'.
      MediaController_searchFiles parseInt10 (exampleEnv (exampleStorage 0 (Inr True) (Inr True)) 0)
        (exampleParams None None) emptyWorld =
      (Inr \<lparr>res_items = items,
            res_pagination =
              \<lparr>pg_currentPage = Finite 1, pg_totalPages = Finite 2, pg_totalItems = Finite 25,
               pg_limit = Finite 20, pg_hasNextPage = True, pg_hasPreviousPage = False\<rparr>\<rparr>, w'))"
proof -
  let ?env = "exampleEnv (exampleStorage 0 (Inr True) (Inr True)) 0"
  have a: "\<not> dbFails ?env 0" and b: "\<not> dbFails ?env 1" by (simp_all add: exampleEnv_def)
  have c: "mongoCount ?env q = Finite (of_int 25)" for q by (simp add: exampleEnv_def)
  have r: "(0::int) \<le> 25" "(25::int) \<le> 2 ^ 45" "(2::int) \<le> 2 ^ 45" "(1::int) \<le> 2 ^ 45"
    by simp_all
  have c1: "\<lceil>5 / 2 :: real\<rceil> = 3" by (rule ceiling_unique) simp_all
  have c2: "\<lceil>1 / 4 :: real\<rceil> = 1" by (rule ceiling_unique) simp_all
  have c3: "\<lceil>5 / 4 :: real\<rceil> = 2" by (rule ceiling_unique) simp_all
  have p1: "requestedPage parseInt10 (exampleParams (Some ''2'') (Some ''10'')) = Finite (of_int 2)"
    and l1: "requestedLimit parseInt10 (exampleParams (Some ''2'') (Some ''10''))
             = Finite (of_int 10)"
    and p2: "requestedPage parseInt10 (exampleParams None (Some ''500'')) = Finite (of_int 1)"
    and l2: "requestedLimit parseInt10 (exampleParams None (Some ''500'')) = Finite (of_int 100)"
    and p3: "requestedPage parseInt10 (exampleParams None None) = Finite (of_int 1)"
    and l3: "requestedLimit parseInt10 (exampleParams None None) = Finite (of_int 20)"
    by (simp_all add: requestedPage_def requestedLimit_def exampleParams_def parseInt10_examples)
  from searchFiles_pagination [OF a b p1 r(3) l1 c r(1,2), of emptyWorld]
  have first: "\<exists>items w'.
      MediaController_searchFiles parseInt10 ?env
        (exampleParams (Some ''2'') (Some ''10'')) emptyWorld =
      (Inr \<lparr>res_items = items,
            res_pagination =
              \<lparr>pg_currentPage = Finite 2, pg_totalPages = Finite 3, pg_totalItems = Finite 25,
               pg_limit = Finite 10, pg_hasNextPage = True, pg_hasPreviousPage = True\<rparr>\<rparr>, w')"
    by (auto simp: c1)
  from searchFiles_pagination [OF a b p2 r(4) l2 c r(1,2), of emptyWorld]
  have second: "\<exists>items w'.
      MediaController_searchFiles parseInt10 ?env
        (exampleParams None (Some ''500'')) emptyWorld =
      (Inr \<lparr>res_items = items,
            res_pagination =
              \<lparr>pg_currentPage = Finite 1, pg_totalPages = Finite 1, pg_totalItems = Finite 25,
               pg_limit = Finite 100, pg_hasNextPage = False, pg_hasPreviousPage = False\<rparr>\<rparr>, w')"
    by (auto simp: c2)
  from searchFiles_pagination [OF a b p3 r(4) l3 c r(1,2), of emptyWorld]
  have third: "\<exists>items w'.
      MediaController_searchFiles parseInt10 ?env (exampleParams None None) emptyWorld =
      (Inr \<lparr>res_items = items,
            res_pagination =
              \<lparr>pg_currentPage = Finite 1, pg_totalPages = Finite 2, pg_totalItems = Finite 25,
               pg_limit = Finite 20, pg_hasNextPage = True, pg_hasPreviousPage = False\<rparr>\<rparr>, w')"
    by (auto simp: c3)
  from a b p1 l1 first second third show ?thesis by blast
qed

text \<open>
  The clamp is the controller's: \<open>MediaService.searchFiles\<close> called on its own with a
  limit of 500 keeps it.
\<close>

lemma searchFiles_service_keeps_limit:
  "map_sum id (pg_limit \<circ> res_pagination)
     (fst (searchFiles (exampleEnv (exampleStorage 0 (Inr True) (Inr True)) 0)
             ((controllerFilter parseInt10 (exampleParams None None))\<lparr>f_limit := Some (Finite 500)\<rparr>)
             False emptyWorld))
   = Inr (Finite 500)"
  by (simp add: searchFiles_def count_repo_def find_repo_def exampleEnv_def Let_def)

subsection \<open>The statuses the operations save\<close>

lemma initiateUpload_trace:
  "\<exists>evs. trace (snd (initiateUpload cfg env request w)) = trace w @ evs \<and>
         savedStatuses evs \<in> {[], [Pending]} \<and> statusHistory ident evs \<in> {[], [Pending]}"
  by (simp add: initiateUpload_def save_def requestUploadUrl_def logCall_def Let_def
        toMediaEntity_def split: sum.splits)

lemma updateFile_trace:
  "\<exists>evs. trace (snd (updateFile cfg env fileId request w)) = trace w @ evs \<and>
         savedStatuses evs \<in> {[], [Pending]} \<and> statusHistory ident evs \<in> {[], [Pending]}"
  by (simp add: updateFile_def findById_def save_def requestUploadUrl_def logCall_def Let_def
        toMediaEntity_def split: sum.splits option.splits)

lemma getFileMetadata_trace:
  "\<exists>evs. trace (snd (getFileMetadata env fileId w)) = trace w @ evs \<and> savedStatuses evs = []"
  by (simp add: getFileMetadata_def findById_def logCall_def Let_def
        split: sum.splits option.splits)

lemma deleteFile_trace:
  "\<exists>evs. trace (snd (deleteFile env fileId w)) = trace w @ evs \<and> savedStatuses evs = []"
  by (simp add: deleteFile_def deleteById_def logCall_def Let_def)

lemma searchFiles_world:
  "\<exists>evs. snd (searchFiles env fltr includeUrls w) = w\<lparr>trace := trace w @ evs\<rparr> \<and>
         savedStatuses evs = []"
proof (cases "dbFails env 0 \<or> dbFails env 1")
  case True
  have "w\<lparr>trace := trace w @ [a]\<rparr>\<lparr>trace := trace w @ [a, b]\<rparr> = w\<lparr>trace := trace w @ [a, b]\<rparr>"
    for a b by simp
  then show ?thesis
    using True
    by (auto simp: searchFiles_def count_repo_def find_repo_def logCall_def Let_def
          intro: exI [of _ "[RepoFailed]"]
                 exI [of _ "[RepoCount (buildQuery fltr), RepoFailed]"])
next
  case False
  let ?limit = "case f_limit fltr of
                  None \<Rightarrow> Finite 20 | Some l \<Rightarrow> if truthyNumber l then l else Finite 20"
  let ?page = "case f_page fltr of
                 None \<Rightarrow> Finite 1 | Some p \<Rightarrow> if truthyNumber p then p else Finite 1"
  let ?sortField = "case f_sortBy fltr of None \<Rightarrow> ''createdAt''
                    | Some s \<Rightarrow> if s = [] then ''createdAt'' else s"
  let ?options = "\<lparr>o_limit = ?limit, o_skip = jsMul (jsSub ?page (Finite 1)) ?limit,
                   o_sort = (?sortField, if f_sortOrder fltr = Some Asc then 1 else - 1)\<rparr>"
  let ?w2 = "logCall (RepoFind (buildQuery fltr) ?options)
               (logCall (RepoCount (buildQuery fltr)) w)"
  from searchLoop_trace [of env includeUrls "mongoFind env (buildQuery fltr) ?options" ?w2]
  obtain dtos evs
    where r: "searchLoop env includeUrls (mongoFind env (buildQuery fltr) ?options) ?w2
              = (dtos, ?w2\<lparr>trace := trace ?w2 @ evs\<rparr>)"
      and s: "savedStatuses evs = []" by blast
  have "snd (searchFiles env fltr includeUrls w)
        = w\<lparr>trace := trace w
                  @ (RepoCount (buildQuery fltr) # RepoFind (buildQuery fltr) ?options # evs)\<rparr>"
    using False r by (simp add: searchFiles_def count_repo_def find_repo_def Let_def logCall_def)
  moreover
  have "savedStatuses (RepoCount (buildQuery fltr) # RepoFind (buildQuery fltr) ?options # evs)
        = []"
    using s by simp
  ultimately show ?thesis by blast
qed

lemma searchFiles_trace:
  "\<exists>evs. trace (snd (searchFiles env fltr includeUrls w)) = trace w @ evs \<and>
         savedStatuses evs = []"
proof -
  from searchFiles_world [of env fltr includeUrls w] obtain evs
    where "snd (searchFiles env fltr includeUrls w) = w\<lparr>trace := trace w @ evs\<rparr>"
      and "savedStatuses evs = []" by blast
  then have "trace (snd (searchFiles env fltr includeUrls w)) = trace w @ evs \<and>
             savedStatuses evs = []" by simp
  then show ?thesis by blast
qed

lemma completeUpload_finish_trace:
  "\<exists>evs. trace (snd (completeUpload_finish env uploadId original mediaEntity w)) = trace w @ evs \<and>
         savedStatuses evs \<in> {[], [Validated], [Invalid]} \<and>
         statusHistory ident evs = (if me_id mediaEntity = ident then savedStatuses evs else [])"
  by (simp add: completeUpload_finish_def save_def logCall_def Let_def split: sum.splits)

lemma completeUpload_reconcile_trace:
  "\<exists>evs. trace (snd (completeUpload_reconcile env uploadId original uploaded w)) = trace w @ evs \<and>
         savedStatuses evs \<in> {[], [Uploaded], [Uploaded, Validated], [Uploaded, Invalid]} \<and>
         statusHistory ident evs \<in> {[], [Uploaded], [Uploaded, Validated], [Uploaded, Invalid]}"
proof (cases "validateUploadedFile original uploaded = Inr () \<and> \<not> dbFails env 1")
  case False
  then show ?thesis
    using validateUploadedFile_cases [of original uploaded]
    by (auto simp: completeUpload_reconcile_def save_def logCall_def Let_def split: sum.splits)
next
  case True
  let ?e = "(toMediaEntityFromStorage (newDate env 0) uploaded)
              \<lparr>me_originalName := me_originalName original, me_status := Uploaded\<rparr>"
  let ?e1 = "?e\<lparr>me_createdAt := Some (newDate env 1), me_updatedAt := Some (newDate env 1)\<rparr>"
  let ?w1 = "logCall (RepoSave ?e1) (w\<lparr>db := (db w)(me_id ?e1 \<mapsto> ?e1)\<rparr>)"
  from completeUpload_finish_trace [of env uploadId original ?e1 ?w1 ident]
  obtain evs
    where t: "trace (snd (completeUpload_finish env uploadId original ?e1 ?w1)) = trace ?w1 @ evs"
      and s: "savedStatuses evs \<in> {[], [Validated], [Invalid]}"
      and h: "statusHistory ident evs = (if me_id ?e1 = ident then savedStatuses evs else [])"
    by blast
  have eq: "snd (completeUpload_reconcile env uploadId original uploaded w)
            = snd (completeUpload_finish env uploadId original ?e1 ?w1)"
    using True
    by (simp add: completeUpload_reconcile_def save_def Let_def toMediaEntityFromStorage_def)
  have "trace (snd (completeUpload_reconcile env uploadId original uploaded w))
        = trace w @ (RepoSave ?e1 # evs)"
    unfolding eq t by (simp add: logCall_def)
  moreover have "savedStatuses (RepoSave ?e1 # evs)
                 \<in> {[], [Uploaded], [Uploaded, Validated], [Uploaded, Invalid]}"
    using s by auto
  moreover have "statusHistory ident (RepoSave ?e1 # evs)
                 \<in> {[], [Uploaded], [Uploaded, Validated], [Uploaded, Invalid]}"
    using s h by auto
  ultimately show ?thesis by blast
qed

lemma completeUpload_trace:
  "\<exists>evs. trace (snd (completeUpload env uploadId w)) = trace w @ evs \<and>
         savedStatuses evs \<in> {[], [Uploaded], [Uploaded, Validated], [Uploaded, Invalid]} \<and>
         statusHistory ident evs \<in> {[], [Uploaded], [Uploaded, Validated], [Uploaded, Invalid]}"
proof (cases "\<not> dbFails env 0 \<and> db w uploadId \<noteq> None
              \<and> sp_verifyUpload (storageProvider env) uploadId = Inr True
              \<and> (\<exists>m. sp_getMetadata (storageProvider env) uploadId = Inr m)")
  case False
  then show ?thesis
    by (auto simp: completeUpload_def findById_def logCall_def Let_def
          split: sum.splits option.splits bool.splits)
next
  case True
  then obtain original uploaded where o: "db w uploadId = Some original"
    and m: "sp_getMetadata (storageProvider env) uploadId = Inr uploaded" by auto
  let ?w3 = "logCall (StorageGetMetadata uploadId)
               (logCall (StorageVerifyUpload uploadId) (logCall (RepoFindById uploadId) w))"
  from completeUpload_reconcile_trace [of env uploadId original uploaded ?w3 ident]
  obtain evs
    where t: "trace (snd (completeUpload_reconcile env uploadId original uploaded ?w3))
              = trace ?w3 @ evs"
      and s: "savedStatuses evs \<in> {[], [Uploaded], [Uploaded, Validated], [Uploaded, Invalid]}"
      and h: "statusHistory ident evs
              \<in> {[], [Uploaded], [Uploaded, Validated], [Uploaded, Invalid]}"
    by blast
  have eq: "snd (completeUpload env uploadId w)
            = snd (completeUpload_reconcile env uploadId original uploaded ?w3)"
    using True o m by (simp add: completeUpload_def findById_def Let_def)
  have "trace (snd (completeUpload env uploadId w))
        = trace w @ (RepoFindById uploadId # StorageVerifyUpload uploadId
                      # StorageGetMetadata uploadId # evs)"
    unfolding eq t by (simp add: logCall_def)
  moreover have "savedStatuses (RepoFindById uploadId # StorageVerifyUpload uploadId
                      # StorageGetMetadata uploadId # evs) = savedStatuses evs"
    and "statusHistory ident (RepoFindById uploadId # StorageVerifyUpload uploadId
                      # StorageGetMetadata uploadId # evs) = statusHistory ident evs"
    by simp_all
  ultimately show ?thesis using s h by metis
qed

lemma perform_trace:
  "\<exists>evs. trace (perform cfg env request w) = trace w @ evs \<and>
         Failed \<notin> set (savedStatuses evs) \<and>
         statusHistory ident evs
           \<in> {[], [Pending], [Uploaded], [Uploaded, Validated], [Uploaded, Invalid]}"
proof (cases request)
  case (InitiateUpload r)
  from initiateUpload_trace [of cfg env r w ident] show ?thesis
    unfolding InitiateUpload perform.simps by fastforce
next
  case (CompleteUpload i)
  from completeUpload_trace [of env i w ident] show ?thesis
    unfolding CompleteUpload perform.simps by fastforce
next
  case (GetFileMetadata i)
  from getFileMetadata_trace [of env i w] show ?thesis
    unfolding GetFileMetadata perform.simps by (fastforce simp: statusHistory_no_saves)
next
  case (DeleteFile i)
  from deleteFile_trace [of env i w] show ?thesis
    unfolding DeleteFile perform.simps by (fastforce simp: statusHistory_no_saves)
next
  case (SearchFiles f u)
  from searchFiles_trace [of env f u w] show ?thesis
    unfolding SearchFiles perform.simps by (fastforce simp: statusHistory_no_saves)
next
  case (UpdateFile i r)
  from updateFile_trace [of cfg env i r w ident] show ?thesis
    unfolding UpdateFile perform.simps by fastforce
qed

lemma engineTransition_extend:
  assumes "successively engineTransition xs"
    and "ys \<in> {[], [Pending], [Uploaded], [Uploaded, Validated], [Uploaded, Invalid]}"
  shows "successively engineTransition (xs @ ys)"
  using assms by (auto simp: successively_append_iff engineTransition_def)

lemma run_invariant:
  assumes "successively engineTransition (statusHistory ident (trace w))"
    and "Failed \<notin> set (savedStatuses (trace w))"
  shows "successively engineTransition (statusHistory ident (trace (run cfg calls w))) \<and>
         Failed \<notin> set (savedStatuses (trace (run cfg calls w)))"
  using assms
proof (induction calls arbitrary: w)
  case Nil
  then show ?case by simp
next
  case (Cons call rest)
  obtain env request where call: "call = (env, request)" by (cases call)
  from perform_trace [of cfg env request w ident] obtain evs
    where t: "trace (perform cfg env request w) = trace w @ evs"
      and f: "Failed \<notin> set (savedStatuses evs)"
      and h: "statusHistory ident evs
                \<in> {[], [Pending], [Uploaded], [Uploaded, Validated], [Uploaded, Invalid]}"
    by blast
  have "successively engineTransition (statusHistory ident (trace (perform cfg env request w)))"
    unfolding t statusHistory_append using Cons.prems(1) h by (rule engineTransition_extend)
  moreover have "Failed \<notin> set (savedStatuses (trace (perform cfg env request w)))"
    unfolding t savedStatuses_append using Cons.prems(2) f by simp
  ultimately show ?case unfolding call run.simps by (rule Cons.IH)
qed

text \<open>What an operation that returns has saved.\<close>

lemma completeUpload_finish_success:
  assumes "completeUpload_finish env uploadId original mediaEntity w = (Inr dto, w')"
  shows "\<exists>evs. trace w' = trace w @ evs \<and> savedStatuses evs = [dto_status dto] \<and>
               (dto_status dto = Validated \<or> dto_status dto = Invalid)"
  using assms
  by (auto simp: completeUpload_finish_def save_def logCall_def Let_def
        StorageMapper_toFileMetadataDto_def split: sum.splits if_splits)

lemma completeUpload_reconcile_success:
  assumes "completeUpload_reconcile env uploadId original uploaded w = (Inr dto, w')"
  shows "\<exists>evs. trace w' = trace w @ evs \<and> savedStatuses evs = [Uploaded, dto_status dto] \<and>
               (dto_status dto = Validated \<or> dto_status dto = Invalid)"
proof -
  let ?e = "(toMediaEntityFromStorage (newDate env 0) uploaded)
              \<lparr>me_originalName := me_originalName original, me_status := Uploaded\<rparr>"
  let ?e1 = "?e\<lparr>me_createdAt := Some (newDate env 1), me_updatedAt := Some (newDate env 1)\<rparr>"
  let ?w1 = "logCall (RepoSave ?e1) (w\<lparr>db := (db w)(me_id ?e1 \<mapsto> ?e1)\<rparr>)"
  have fin: "completeUpload_finish env uploadId original ?e1 ?w1 = (Inr dto, w')"
    using assms
    by (auto simp: completeUpload_reconcile_def save_def Let_def toMediaEntityFromStorage_def
          split: sum.splits if_splits)
  from completeUpload_finish_success [OF fin] obtain evs
    where "trace w' = trace ?w1 @ evs" and "savedStatuses evs = [dto_status dto]"
      and "dto_status dto = Validated \<or> dto_status dto = Invalid" by blast
  then have "trace w' = trace w @ (RepoSave ?e1 # evs) \<and>
             savedStatuses (RepoSave ?e1 # evs) = [Uploaded, dto_status dto] \<and>
             (dto_status dto = Validated \<or> dto_status dto = Invalid)"
    by (simp add: logCall_def)
  then show ?thesis by blast
qed

lemma completeUpload_success:
  assumes "completeUpload env uploadId w = (Inr dto, w')"
  shows "savedStatuses (newEvents w w') = [Uploaded, dto_status dto] \<and>
         (dto_status dto = Validated \<or> dto_status dto = Invalid)"
proof -
  let ?w3 = "logCall (StorageGetMetadata uploadId)
               (logCall (StorageVerifyUpload uploadId) (logCall (RepoFindById uploadId) w))"
  obtain original uploaded
    where "completeUpload_reconcile env uploadId original uploaded ?w3 = (Inr dto, w')"
    using assms
    by (auto simp: completeUpload_def findById_def Let_def
          split: sum.splits option.splits bool.splits if_splits)
  from completeUpload_reconcile_success [OF this] obtain evs
    where "trace w' = trace ?w3 @ evs" and "savedStatuses evs = [Uploaded, dto_status dto]"
      and d: "dto_status dto = Validated \<or> dto_status dto = Invalid" by blast
  then have "trace w' = trace w @ (RepoFindById uploadId # StorageVerifyUpload uploadId
                                    # StorageGetMetadata uploadId # evs)"
    and "savedStatuses (RepoFindById uploadId # StorageVerifyUpload uploadId
                          # StorageGetMetadata uploadId # evs) = [Uploaded, dto_status dto]"
    by (simp_all add: logCall_def)
  then show ?thesis using d by (simp add: newEvents_def)
qed

text \<open>What \<open>completeUpload\<close> has saved when it raises an error.\<close>

lemma completeUpload_finish_failure:
  assumes "completeUpload_finish env uploadId original mediaEntity w = (Inl e, w')"
  shows "\<exists>evs. trace w' = trace w @ evs \<and> savedStatuses evs = []"
  using assms
  by (auto simp: completeUpload_finish_def save_def logCall_def Let_def
        split: sum.splits if_splits)

lemma completeUpload_reconcile_failure:
  assumes "completeUpload_reconcile env uploadId original uploaded w = (Inl e, w')"
  shows "\<exists>evs. trace w' = trace w @ evs \<and> savedStatuses evs \<in> {[], [Uploaded]}"
proof (cases "validateUploadedFile original uploaded = Inr () \<and> \<not> dbFails env 1")
  case False
  have "trace w' = trace w @ [] \<or> trace w' = trace w @ [RepoFailed]"
    using assms False validateUploadedFile_cases [of original uploaded]
    by (auto simp: completeUpload_reconcile_def save_def logCall_def Let_def split: sum.splits)
  then show ?thesis
  proof
    assume "trace w' = trace w @ []"
    then have "trace w' = trace w @ [] \<and> savedStatuses [] \<in> {[], [Uploaded]}" by simp
    then show ?thesis by blast
  next
    assume "trace w' = trace w @ [RepoFailed]"
    then have "trace w' = trace w @ [RepoFailed] \<and>
               savedStatuses [RepoFailed] \<in> {[], [Uploaded]}" by simp
    then show ?thesis by blast
  qed
next
  case True
  let ?e = "(toMediaEntityFromStorage (newDate env 0) uploaded)
              \<lparr>me_originalName := me_originalName original, me_status := Uploaded\<rparr>"
  let ?e1 = "?e\<lparr>me_createdAt := Some (newDate env 1), me_updatedAt := Some (newDate env 1)\<rparr>"
  let ?w1 = "logCall (RepoSave ?e1) (w\<lparr>db := (db w)(me_id ?e1 \<mapsto> ?e1)\<rparr>)"
  have fin: "completeUpload_finish env uploadId original ?e1 ?w1 = (Inl e, w')"
    using assms True
    by (simp add: completeUpload_reconcile_def save_def Let_def toMediaEntityFromStorage_def)
  from completeUpload_finish_failure [OF fin] obtain evs
    where "trace w' = trace ?w1 @ evs" and "savedStatuses evs = []" by blast
  then have "trace w' = trace w @ (RepoSave ?e1 # evs) \<and>
             savedStatuses (RepoSave ?e1 # evs) = [Uploaded]"
    by (simp add: logCall_def)
  then show ?thesis by blast
qed

lemma completeUpload_failure:
  assumes "completeUpload env uploadId w = (Inl e, w')"
  shows "savedStatuses (newEvents w w') \<in> {[], [Uploaded]}"
proof -
  let ?w3 = "logCall (StorageGetMetadata uploadId)
               (logCall (StorageVerifyUpload uploadId) (logCall (RepoFindById uploadId) w))"
  have "(\<exists>original uploaded.
           completeUpload_reconcile env uploadId original uploaded ?w3 = (Inl e, w')) \<or>
        (\<exists>evs. trace w' = trace w @ evs \<and> savedStatuses evs = [])"
  proof (cases "findById (dbFails env 0) uploadId w")
    case (Pair r w1)
    show ?thesis
    proof (cases r)
      case (Inl e1)
      with Pair assms have "trace w' = trace w @ [RepoFailed] \<and> savedStatuses [RepoFailed] = []"
        by (auto simp: completeUpload_def findById_def logCall_def split: if_splits)
      then show ?thesis by blast
    next
      case (Inr found)
      with Pair have w1: "w1 = logCall (RepoFindById uploadId) w"
        by (auto simp: findById_def split: if_splits)
      show ?thesis
      proof (cases found)
        case None
        with Pair Inr assms w1
        have "trace w' = trace w @ [RepoFindById uploadId] \<and>
              savedStatuses [RepoFindById uploadId] = []"
          by (auto simp: completeUpload_def logCall_def)
        then show ?thesis by blast
      next
        case (Some original)
        show ?thesis
        proof (cases "sp_verifyUpload (storageProvider env) uploadId = Inr True")
          case False
          with Pair Inr Some assms w1
          have "trace w' = trace w @ [RepoFindById uploadId, StorageVerifyUpload uploadId] \<and>
                savedStatuses [RepoFindById uploadId, StorageVerifyUpload uploadId] = []"
            by (auto simp: completeUpload_def logCall_def Let_def split: sum.splits bool.splits)
          then show ?thesis by blast
        next
          case True
          show ?thesis
          proof (cases "sp_getMetadata (storageProvider env) uploadId")
            case (Inl e2)
            with Pair Inr Some assms w1 True
            have "trace w' = trace w @ [RepoFindById uploadId, StorageVerifyUpload uploadId,
                                        StorageGetMetadata uploadId] \<and>
                  savedStatuses [RepoFindById uploadId, StorageVerifyUpload uploadId,
                                 StorageGetMetadata uploadId] = []"
              by (auto simp: completeUpload_def logCall_def Let_def)
            then show ?thesis by blast
          next
            case (Inr uploaded)
            with Pair \<open>r = Inr found\<close> Some assms w1 True
            have "completeUpload_reconcile env uploadId original uploaded ?w3 = (Inl e, w')"
              by (simp add: completeUpload_def Let_def)
            then show ?thesis by blast
          qed
        qed
      qed
    qed
  qed
  then show ?thesis
  proof
    assume "\<exists>original uploaded.
              completeUpload_reconcile env uploadId original uploaded ?w3 = (Inl e, w')"
    then obtain original uploaded
      where "completeUpload_reconcile env uploadId original uploaded ?w3 = (Inl e, w')" by blast
    from completeUpload_reconcile_failure [OF this] obtain evs
      where t: "trace w' = trace ?w3 @ evs" and s: "savedStatuses evs \<in> {[], [Uploaded]}"
      by blast
    have "trace w' = trace w @ (RepoFindById uploadId # StorageVerifyUpload uploadId
                                  # StorageGetMetadata uploadId # evs)"
      using t by (simp add: logCall_def)
    then have "newEvents w w' = RepoFindById uploadId # StorageVerifyUpload uploadId
                                  # StorageGetMetadata uploadId # evs"
      by (rule newEvents_append)
    then show ?thesis using s by simp
  next
    assume "\<exists>evs. trace w' = trace w @ evs \<and> savedStatuses evs = []"
    then obtain evs where "trace w' = trace w @ evs" and s: "savedStatuses evs = []" by blast
    then have "newEvents w w' = evs" by (simp add: newEvents_append)
    then show ?thesis using s by simp
  qed
qed

lemma initiateUpload_success:
  assumes "initiateUpload cfg env request w = (Inr response, w')"
  shows "savedStatuses (newEvents w w') = [Pending]"
  using assms
  by (auto simp: initiateUpload_def save_def requestUploadUrl_def logCall_def Let_def
        toMediaEntity_def newEvents_def split: sum.splits if_splits)

lemma updateFile_success:
  assumes "updateFile cfg env fileId request w = (Inr response, w')"
  shows "savedStatuses (newEvents w w') = [Pending]"
  using assms
  by (auto simp: updateFile_def findById_def save_def requestUploadUrl_def logCall_def Let_def
        toMediaEntity_def newEvents_def split: sum.splits option.splits if_splits)

subsection \<open>The store and the trace\<close>

text \<open>
  The store changes only by a save, which logs the document it wrote, and by a deletion:
  the status of a stored record is the last status saved for its id.
\<close>

lemma statusHistory_subset: "set (statusHistory ident evs) \<subseteq> set (savedStatuses evs)"
  by (induction ident evs rule: statusHistory.induct) auto

lemma sft_logCall:
  assumes "storeFollowsTrace w" and "savedStatuses [ev] = []"
  shows "storeFollowsTrace (logCall ev w)"
proof -
  have "statusHistory ident [ev] = []" for ident
    using assms(2) by (rule statusHistory_no_saves)
  then show ?thesis
    using assms(1) by (simp add: storeFollowsTrace_def logCall_def statusHistory_append)
qed

lemma sft_save:
  assumes "storeFollowsTrace w"
  shows "storeFollowsTrace (snd (save now fails entity w))"
proof (cases fails)
  case True
  then show ?thesis using assms by (simp add: save_def sft_logCall)
next
  case False
  then show ?thesis
    using assms
    by (auto simp: save_def Let_def storeFollowsTrace_def logCall_def statusHistory_append)
qed

lemma sft_save_eq:
  "storeFollowsTrace w \<Longrightarrow> save now fails entity w = (r, w1) \<Longrightarrow> storeFollowsTrace w1"
  using sft_save [of w now fails entity] by simp

lemma sft_findById:
  "storeFollowsTrace w \<Longrightarrow> findById fails ident w = (r, w1) \<Longrightarrow> storeFollowsTrace w1"
  by (auto simp: findById_def sft_logCall split: if_splits)

lemma sft_deleteById:
  assumes "storeFollowsTrace w"
  shows "storeFollowsTrace (snd (deleteById fails ident w))"
proof (cases fails)
  case True
  then show ?thesis using assms by (simp add: deleteById_def sft_logCall)
next
  case False
  have "statusHistory i [RepoDeleteById ident] = []" for i by simp
  then show ?thesis
    using assms False
    by (auto simp: deleteById_def storeFollowsTrace_def logCall_def statusHistory_append)
qed

lemma sft_requestUploadUrl:
  "storeFollowsTrace w \<Longrightarrow> storeFollowsTrace (snd (requestUploadUrl env m w))"
  by (simp add: requestUploadUrl_def Let_def sft_logCall split: sum.splits)

lemma sft_initiateUpload:
  assumes "storeFollowsTrace w"
  shows "storeFollowsTrace (snd (initiateUpload cfg env request w))"
  using assms sft_save_eq [OF assms]
  by (auto simp: initiateUpload_def Let_def split: sum.splits prod.splits
        intro!: sft_requestUploadUrl)

lemma sft_updateFile:
  assumes "storeFollowsTrace w"
  shows "storeFollowsTrace (snd (updateFile cfg env fileId request w))"
proof -
  have "storeFollowsTrace w3"
    if "findById (dbFails env 0) fileId w = (r, w1)"
      and "save now fails entity (logCall (StorageDeleteFile fileId) w1) = (r', w3)"
    for r w1 now fails entity r' w3
  proof -
    have "storeFollowsTrace w1" using assms that(1) by (rule sft_findById)
    then have "storeFollowsTrace (logCall (StorageDeleteFile fileId) w1)"
      by (rule sft_logCall) simp
    then show ?thesis using that(2) by (rule sft_save_eq)
  qed
  then show ?thesis
    using assms sft_findById [OF assms]
    by (auto simp: updateFile_def Let_def split: sum.splits prod.splits option.splits
          intro!: sft_requestUploadUrl)
qed

lemma sft_getFileMetadata:
  assumes "storeFollowsTrace w"
  shows "storeFollowsTrace (snd (getFileMetadata env fileId w))"
  using assms sft_findById [OF assms]
  by (auto simp: getFileMetadata_def Let_def split: sum.splits prod.splits option.splits
        intro!: sft_logCall)

lemma sft_deleteFile:
  assumes "storeFollowsTrace w"
  shows "storeFollowsTrace (snd (deleteFile env fileId w))"
proof -
  have "storeFollowsTrace (logCall (StorageDeleteFile fileId) w)"
    using assms by (rule sft_logCall) simp
  from sft_deleteById [OF this, of "dbFails env 0" fileId] show ?thesis
    by (auto simp: deleteFile_def Let_def split: sum.splits prod.splits)
qed

lemma sft_searchFiles:
  assumes "storeFollowsTrace w"
  shows "storeFollowsTrace (snd (searchFiles env fltr includeUrls w))"
proof -
  from searchFiles_world [of env fltr includeUrls w] obtain evs
    where t: "snd (searchFiles env fltr includeUrls w) = w\<lparr>trace := trace w @ evs\<rparr>"
      and s: "savedStatuses evs = []" by blast
  have "statusHistory ident evs = []" for ident using s by (rule statusHistory_no_saves)
  then show ?thesis
    using assms by (simp add: storeFollowsTrace_def t statusHistory_append)
qed

lemma sft_finish:
  assumes "storeFollowsTrace w"
  shows "storeFollowsTrace (snd (completeUpload_finish env uploadId original mediaEntity w))"
proof -
  have "storeFollowsTrace w2"
    if "save now fails entity (logCall (StorageValidateFileContent uploadId m) w) = (r, w2)"
    for now fails entity m r w2
  proof -
    have "storeFollowsTrace (logCall (StorageValidateFileContent uploadId m) w)"
      using assms by (rule sft_logCall) simp
    then show ?thesis using that by (rule sft_save_eq)
  qed
  then show ?thesis
    by (auto simp: completeUpload_finish_def Let_def split: sum.splits prod.splits
          intro!: sft_logCall)
qed

lemma sft_reconcile:
  assumes "storeFollowsTrace w"
  shows "storeFollowsTrace (snd (completeUpload_reconcile env uploadId original uploaded w))"
  using assms sft_save_eq [OF assms]
  by (auto simp: completeUpload_reconcile_def Let_def split: sum.splits prod.splits
        intro!: sft_finish)

lemma sft_completeUpload:
  assumes "storeFollowsTrace w"
  shows "storeFollowsTrace (snd (completeUpload env uploadId w))"
  using assms sft_findById [OF assms]
  by (auto simp: completeUpload_def Let_def
        split: sum.splits prod.splits option.splits bool.splits
        intro!: sft_reconcile sft_logCall)

lemma sft_perform:
  "storeFollowsTrace w \<Longrightarrow> storeFollowsTrace (perform cfg env request w)"
  by (cases request)
     (simp_all add: sft_initiateUpload sft_completeUpload sft_getFileMetadata sft_deleteFile
        sft_searchFiles sft_updateFile)

lemma sft_run: "storeFollowsTrace w \<Longrightarrow> storeFollowsTrace (run cfg calls w)"
proof (induction calls arbitrary: w)
  case Nil
  then show ?case by simp
next
  case (Cons call rest)
  obtain env request where call: "call = (env, request)" by (cases call)
  show ?case unfolding call run.simps using Cons.prems by (intro Cons.IH sft_perform)
qed

section \<open>Properties of overlapping operations\<close>

subsection \<open>A task run alone is the operation\<close>

lemma exec_await: "exec (await c k) w = (case c w of (a, w') \<Rightarrow> exec (k a) w')"
  by (simp add: await_def split: prod.splits)

lemma exec_requestUploadUrl:
  "exec (requestUploadUrl_task env storageMetadata) w = requestUploadUrl env storageMetadata w"
  by (simp add: requestUploadUrl_task_def requestUploadUrl_def exec_await storageCall_def Let_def
        split: sum.splits)

lemma exec_initiateUpload:
  "exec (initiateUpload_task cfg env request) w = initiateUpload cfg env request w"
  by (simp add: initiateUpload_task_def initiateUpload_def Let_def exec_await
        exec_requestUploadUrl split: sum.splits prod.splits)

lemma exec_completeUpload_finish:
  "exec (completeUpload_finish_task env uploadId originalEntity mediaEntity) w
   = completeUpload_finish env uploadId originalEntity mediaEntity w"
  by (simp add: completeUpload_finish_task_def completeUpload_finish_def Let_def exec_await
        storageCall_def split: sum.splits prod.splits)

lemma exec_completeUpload_reconcile:
  "exec (completeUpload_reconcile_task env uploadId originalEntity storageMetadata) w
   = completeUpload_reconcile env uploadId originalEntity storageMetadata w"
  by (simp add: completeUpload_reconcile_task_def completeUpload_reconcile_def Let_def
        exec_await exec_completeUpload_finish split: sum.splits prod.splits)

lemma exec_completeUpload:
  "exec (completeUpload_task env uploadId) w = completeUpload env uploadId w"
  by (simp add: completeUpload_task_def completeUpload_def Let_def exec_await storageCall_def
        exec_completeUpload_reconcile
        split: sum.splits prod.splits option.splits bool.splits)

lemma exec_getFileMetadata:
  "exec (getFileMetadata_task env fileId) w = getFileMetadata env fileId w"
  by (simp add: getFileMetadata_task_def getFileMetadata_def Let_def exec_await storageCall_def
        split: sum.splits prod.splits option.splits)

lemma exec_deleteFile:
  "exec (deleteFile_task env fileId) w = deleteFile env fileId w"
  by (simp add: deleteFile_task_def deleteFile_def Let_def exec_await storageCall_def
        split: sum.splits prod.splits)

lemma exec_updateFile:
  "exec (updateFile_task cfg env fileId request) w = updateFile cfg env fileId request w"
  by (simp add: updateFile_task_def updateFile_def Let_def exec_await storageCall_def
        exec_requestUploadUrl split: sum.splits prod.splits option.splits)

lemma exec_searchLoop:
  "exec (searchLoop_task entities env includeUrls k) w
   = (case searchLoop env includeUrls entities w of (dtos, w') \<Rightarrow> exec (k dtos) w')"
proof (induction entities arbitrary: k w)
  case Nil
  show ?case by simp
next
  case (Cons entity rest)
  show ?case
  proof (cases "includeUrls \<and> me_status entity = Validated")
    case True
    have "exec (searchLoop_task (entity # rest) env includeUrls k) w
          = exec (searchLoop_task rest env includeUrls
                    (\<lambda>dtos. k ((case sp_getDownloadUrl (storageProvider env) (me_id entity) of
                                   Inl e \<Rightarrow> MediaMapper_toFileMetadataDto entity
                                 | Inr u \<Rightarrow> (MediaMapper_toFileMetadataDto entity)
                                             \<lparr>dto_url := Some u\<rparr>) # dtos)))
              (logCall (StorageGetDownloadUrl (me_id entity)) w)"
      using True by (simp add: Let_def exec_await storageCall_def)
    also have "\<dots> = (case searchLoop env includeUrls (entity # rest) w of
                       (dtos, w') \<Rightarrow> exec (k dtos) w')"
      unfolding Cons.IH using True by (simp add: Let_def split: prod.splits)
    finally show ?thesis .
  next
    case False
    have "exec (searchLoop_task (entity # rest) env includeUrls k) w
          = exec (searchLoop_task rest env includeUrls
                    (\<lambda>dtos. k (MediaMapper_toFileMetadataDto entity # dtos))) w"
      using False by (auto simp: Let_def)
    also have "\<dots> = (case searchLoop env includeUrls (entity # rest) w of
                       (dtos, w') \<Rightarrow> exec (k dtos) w')"
      unfolding Cons.IH using False by (auto simp: Let_def split: prod.splits)
    finally show ?thesis .
  qed
qed

lemma exec_searchFiles:
  "exec (searchFiles_task env fltr includeUrls) w = searchFiles env fltr includeUrls w"
  by (simp add: searchFiles_task_def searchFiles_def Let_def exec_await exec_searchLoop
        split: sum.splits prod.splits)

lemma exec_discard: "snd (exec (discard t) w) = snd (exec t w)"
proof (induction t arbitrary: w)
  case (Ended r)
  show ?case by simp
next
  case (Suspended f)
  obtain t w' where f: "f w = (t, w')" by fastforce
  have "(t, w') \<in> range f" using f by (metis rangeI)
  then have "snd (exec (discard t) w') = snd (exec t w')"
    by (rule Suspended.IH) simp
  then show ?case using f by simp
qed

text \<open>Tasks scheduled one after the other, each to its end, are a run.\<close>

lemma exec_taskOf: "snd (exec (taskOf cfg (env, request)) w) = perform cfg env request w"
  by (cases request)
     (simp_all add: exec_discard exec_initiateUpload exec_completeUpload exec_getFileMetadata
        exec_deleteFile exec_searchFiles exec_updateFile)

subsection \<open>No call saves the status failed\<close>

inductive_cases safe_SuspendedE: "safe (Suspended f)"

lemma safe_await:
  assumes "\<And>w. \<exists>evs. trace (snd (c w)) = trace w @ evs \<and> Failed \<notin> set (savedStatuses evs)"
    and "\<And>w. storeFollowsTrace w \<Longrightarrow> storeFollowsTrace (snd (c w))"
    and "\<And>a. safe (k a)"
  shows "safe (await c k)"
  unfolding await_def
proof (rule safe_Suspended)
  fix w
  obtain a w' where c: "c w = (a, w')" by fastforce
  from assms(1) [of w] assms(2) [of w] assms(3) [of a] c
  show "(\<exists>evs. trace (snd (case c w of (a, w') \<Rightarrow> (k a, w'))) = trace w @ evs \<and>
               Failed \<notin> set (savedStatuses evs)) \<and>
        (storeFollowsTrace w \<longrightarrow> storeFollowsTrace (snd (case c w of (a, w') \<Rightarrow> (k a, w')))) \<and>
        safe (fst (case c w of (a, w') \<Rightarrow> (k a, w')))"
    by simp
qed

lemma safe_storageCall:
  assumes "savedStatuses [ev] = []" and "\<And>a. safe (k a)"
  shows "safe (await (storageCall ev answer) k)"
proof (rule safe_await)
  fix w
  have "trace (snd (storageCall ev answer w)) = trace w @ [ev] \<and>
        Failed \<notin> set (savedStatuses [ev])"
    using assms(1) by (simp add: storageCall_def logCall_def)
  then show "\<exists>evs. trace (snd (storageCall ev answer w)) = trace w @ evs \<and>
                  Failed \<notin> set (savedStatuses evs)" by blast
  show "storeFollowsTrace w \<Longrightarrow> storeFollowsTrace (snd (storageCall ev answer w))"
    using assms(1) by (simp add: storageCall_def sft_logCall)
qed (rule assms(2))

lemma safe_save:
  assumes "me_status entity \<noteq> Failed" and "\<And>a. safe (k a)"
  shows "safe (await (save now fails entity) k)"
proof (rule safe_await)
  fix w
  show "\<exists>evs. trace (snd (save now fails entity w)) = trace w @ evs \<and>
             Failed \<notin> set (savedStatuses evs)"
    using assms(1) by (simp add: save_def Let_def logCall_def)
  show "storeFollowsTrace w \<Longrightarrow> storeFollowsTrace (snd (save now fails entity w))"
    by (rule sft_save)
qed (rule assms(2))

lemma safe_findById:
  assumes "\<And>a. safe (k a)"
  shows "safe (await (findById fails ident) k)"
proof (rule safe_await)
  fix w
  show "\<exists>evs. trace (snd (findById fails ident w)) = trace w @ evs \<and>
             Failed \<notin> set (savedStatuses evs)"
    by (simp add: findById_def logCall_def)
  show "storeFollowsTrace w \<Longrightarrow> storeFollowsTrace (snd (findById fails ident w))"
    using sft_findById [of w fails ident] by (metis prod.collapse)
qed (rule assms)

lemma safe_deleteById:
  assumes "\<And>a. safe (k a)"
  shows "safe (await (deleteById fails ident) k)"
proof (rule safe_await)
  fix w
  show "\<exists>evs. trace (snd (deleteById fails ident w)) = trace w @ evs \<and>
             Failed \<notin> set (savedStatuses evs)"
    by (simp add: deleteById_def logCall_def)
  show "storeFollowsTrace w \<Longrightarrow> storeFollowsTrace (snd (deleteById fails ident w))"
    by (rule sft_deleteById)
qed (rule assms)

lemma safe_count:
  assumes "\<And>a. safe (k a)"
  shows "safe (await (count_repo env fails query) k)"
proof (rule safe_await)
  fix w
  show "\<exists>evs. trace (snd (count_repo env fails query w)) = trace w @ evs \<and>
             Failed \<notin> set (savedStatuses evs)"
    by (simp add: count_repo_def logCall_def)
  show "storeFollowsTrace w \<Longrightarrow> storeFollowsTrace (snd (count_repo env fails query w))"
    by (simp add: count_repo_def sft_logCall)
qed (rule assms)

lemma safe_find:
  assumes "\<And>a. safe (k a)"
  shows "safe (await (find_repo env fails query options) k)"
proof (rule safe_await)
  fix w
  show "\<exists>evs. trace (snd (find_repo env fails query options w)) = trace w @ evs \<and>
             Failed \<notin> set (savedStatuses evs)"
    by (simp add: find_repo_def logCall_def)
  show "storeFollowsTrace w \<Longrightarrow> storeFollowsTrace (snd (find_repo env fails query options w))"
    by (simp add: find_repo_def sft_logCall)
qed (rule assms)

lemma safe_requestUploadUrl: "safe (requestUploadUrl_task env storageMetadata)"
  unfolding requestUploadUrl_task_def
  by (rule safe_storageCall) (simp_all add: safe_Ended split: sum.splits)

lemma safe_initiateUpload: "safe (initiateUpload_task cfg env request)"
  unfolding initiateUpload_task_def Let_def
  by (auto simp: toMediaEntity_def safe_Ended safe_requestUploadUrl
        intro!: safe_save split: sum.splits)

lemma safe_updateFile: "safe (updateFile_task cfg env fileId request)"
  unfolding updateFile_task_def Let_def
  by (auto simp: toMediaEntity_def safe_Ended safe_requestUploadUrl
        intro!: safe_save safe_findById safe_storageCall split: sum.splits option.splits)

lemma safe_completeUpload_finish:
  "safe (completeUpload_finish_task env uploadId originalEntity mediaEntity)"
  unfolding completeUpload_finish_task_def Let_def
  by (auto simp: safe_Ended intro!: safe_save safe_storageCall split: sum.splits if_splits)

lemma safe_completeUpload_reconcile:
  "safe (completeUpload_reconcile_task env uploadId originalEntity storageMetadata)"
  unfolding completeUpload_reconcile_task_def Let_def
  by (auto simp: safe_Ended safe_completeUpload_finish intro!: safe_save split: sum.splits)

lemma safe_completeUpload: "safe (completeUpload_task env uploadId)"
  unfolding completeUpload_task_def
  by (auto simp: safe_Ended safe_completeUpload_reconcile
        intro!: safe_findById safe_storageCall split: sum.splits option.splits bool.splits)

lemma safe_getFileMetadata: "safe (getFileMetadata_task env fileId)"
  unfolding getFileMetadata_task_def Let_def
  by (auto simp: safe_Ended intro!: safe_findById safe_storageCall
        split: sum.splits option.splits)

lemma safe_deleteFile: "safe (deleteFile_task env fileId)"
  unfolding deleteFile_task_def Let_def
  by (auto simp: safe_Ended intro!: safe_deleteById safe_storageCall split: sum.splits)

lemma safe_searchLoop:
  "(\<And>dtos. safe (k dtos)) \<Longrightarrow> safe (searchLoop_task entities env includeUrls k)"
proof (induction entities arbitrary: k includeUrls)
  case Nil
  then show ?case by simp
next
  case (Cons entity rest)
  show ?case
  proof (cases "includeUrls \<and> me_status entity = Validated")
    case True
    then show ?thesis
      using Cons.prems by (auto simp: Let_def intro!: safe_storageCall Cons.IH)
  next
    case False
    then show ?thesis using Cons.prems by (auto simp: Let_def intro!: Cons.IH)
  qed
qed

lemma safe_searchFiles: "safe (searchFiles_task env fltr includeUrls)"
  unfolding searchFiles_task_def Let_def
  by (auto simp: safe_Ended intro!: safe_count safe_find safe_searchLoop split: sum.splits)

lemma safe_discard: "safe t \<Longrightarrow> safe (discard t)"
proof (induction rule: safe.induct)
  case (safe_Ended r)
  show ?case by (simp add: safe.safe_Ended)
next
  case (safe_Suspended f)
  show ?case
    unfolding discard.simps
  proof (rule safe.safe_Suspended)
    fix w
    from safe_Suspended [of w]
    show "(\<exists>evs. trace (snd (map_prod discard id (f w))) = trace w @ evs \<and>
                 Failed \<notin> set (savedStatuses evs)) \<and>
          (storeFollowsTrace w \<longrightarrow> storeFollowsTrace (snd (map_prod discard id (f w)))) \<and>
          safe (fst (map_prod discard id (f w)))"
      by simp
  qed
qed

lemma safe_taskOf: "safe (taskOf cfg request)"
proof (cases request)
  case (Pair env operation)
  then show ?thesis
    by (cases operation)
       (simp_all add: safe_discard safe_initiateUpload safe_completeUpload
          safe_getFileMetadata safe_deleteFile safe_searchFiles safe_updateFile)
qed

lemma interleave_safe:
  assumes "\<forall>t \<in> set tasks. safe t"
    and "Failed \<notin> set (savedStatuses (trace w))"
    and "storeFollowsTrace w"
  shows "Failed \<notin> set (savedStatuses (trace (snd (interleave schedule tasks w)))) \<and>
         storeFollowsTrace (snd (interleave schedule tasks w))"
  using assms
proof (induction schedule arbitrary: tasks w)
  case Nil
  then show ?case by simp
next
  case (Cons i schedule)
  show ?case
  proof (cases "i < length tasks")
    case False
    then show ?thesis using Cons by simp
  next
    case True
    show ?thesis
    proof (cases "tasks ! i")
      case (Ended r)
      then show ?thesis using True Cons by simp
    next
      case (Suspended f)
      obtain t w' where f: "f w = (t, w')" by fastforce
      have "safe (Suspended f)" using Cons.prems(1) True Suspended by (metis nth_mem)
      then have step: "(\<exists>evs. trace (snd (f w)) = trace w @ evs \<and>
                               Failed \<notin> set (savedStatuses evs)) \<and>
                       (storeFollowsTrace w \<longrightarrow> storeFollowsTrace (snd (f w))) \<and>
                       safe (fst (f w))"
        by (rule safe_SuspendedE) blast
      then obtain evs where "trace w' = trace w @ evs" and "Failed \<notin> set (savedStatuses evs)"
        using f by auto
      then have a: "Failed \<notin> set (savedStatuses (trace w'))"
        using Cons.prems(2) by (simp add: savedStatuses_append)
      have b: "storeFollowsTrace w'" using step f Cons.prems(3) by simp
      have "safe t" using step f by simp
      then have c: "\<forall>u \<in> set (tasks[i := t]). safe u"
        using Cons.prems(1) by (metis insert_iff set_update_subset_insert subsetD)
      from Cons.IH [OF c a b] show ?thesis using True Suspended f by simp
    qed
  qed
qed

subsection \<open>The statuses one operation saves among others\<close>

lemma disturbed_await:
  "disturbed (await c k) ws =
     (case ws of
        [] \<Rightarrow> (None, [])
      | w # rest \<Rightarrow>
          (case c w of
             (a, w') \<Rightarrow>
               (case disturbed (k a) rest of
                  (r, statuses) \<Rightarrow> (r, savedStatuses (newEvents w w') @ statuses))))"
  by (cases ws) (simp_all add: await_def split: prod.splits)

lemma saved_by_storageCall:
  "savedStatuses [ev] = [] \<Longrightarrow> storageCall ev answer w = (a, w') \<Longrightarrow>
   savedStatuses (newEvents w w') = [] \<and> a = answer"
  by (auto simp: storageCall_def logCall_def newEvents_def)

lemma saved_by_findById:
  "findById fails ident w = (a, w') \<Longrightarrow> savedStatuses (newEvents w w') = []"
  by (auto simp: findById_def logCall_def newEvents_def split: if_splits)

lemma saved_by_save:
  "save now fails entity w = (a, w') \<Longrightarrow>
   (\<exists>e. a = Inl e \<and> savedStatuses (newEvents w w') = []) \<or>
   (\<exists>saved. a = Inr saved \<and> me_status saved = me_status entity \<and>
            savedStatuses (newEvents w w') = [me_status entity])"
  by (auto simp: save_def Let_def logCall_def newEvents_def split: if_splits)

lemma disturbed_requestUploadUrl:
  "snd (disturbed (requestUploadUrl_task env storageMetadata) ws) = []"
  by (auto simp: requestUploadUrl_task_def disturbed_await storageCall_def logCall_def
        newEvents_def split: list.splits sum.splits)

lemma disturbed_initiateUpload:
  "snd (disturbed (initiateUpload_task cfg env request) ws) \<in> {[], [Pending]} \<and>
   (\<forall>response. fst (disturbed (initiateUpload_task cfg env request) ws) = Some (Inr response) \<longrightarrow>
      snd (disturbed (initiateUpload_task cfg env request) ws) = [Pending])"
proof (cases "validateUploadRequest cfg request")
  case (Inl e)
  then show ?thesis by (simp add: initiateUpload_task_def)
next
  case (Inr u)
  let ?m = "toMediaEntity (newDate env 0) (newDate env 1) request (randomUUID env)"
  let ?sm = "toStorageMetadata request (Some (randomUUID env))"
  show ?thesis
  proof (cases ws)
    case Nil
    then show ?thesis using Inr by (simp add: initiateUpload_task_def Let_def disturbed_await)
  next
    case (Cons w rest)
    obtain a w' where s: "save (newDate env 2) (dbFails env 0) ?m w = (a, w')" by fastforce
    obtain r ss where d: "disturbed (requestUploadUrl_task env ?sm) rest = (r, ss)" by fastforce
    have ss: "ss = []" using disturbed_requestUploadUrl [of env ?sm rest] d by simp
    have st: "me_status ?m = Pending" by (simp add: toMediaEntity_def)
    from saved_by_save [OF s] show ?thesis
      using Inr Cons s d ss st
      by (auto simp: initiateUpload_task_def Let_def disturbed_await)
  qed
qed

lemma disturbed_updateFile:
  "snd (disturbed (updateFile_task cfg env fileId request) ws) \<in> {[], [Pending]} \<and>
   (\<forall>response. fst (disturbed (updateFile_task cfg env fileId request) ws)
                  = Some (Inr response) \<longrightarrow>
      snd (disturbed (updateFile_task cfg env fileId request) ws) = [Pending])"
proof (cases "validateUploadRequest cfg request")
  case (Inl e)
  then show ?thesis by (simp add: updateFile_task_def)
next
  case (Inr u)
  let ?m = "(toMediaEntity (newDate env 0) (newDate env 1) request fileId)\<lparr>me_status := Pending\<rparr>"
  let ?sm = "toStorageMetadata request (Some fileId)"
  let ?save = "await (save (newDate env 2) (dbFails env 1) ?m)
                 (\<lambda>saved. case saved of
                    Inl e \<Rightarrow> Ended (Inl e)
                  | Inr _ \<Rightarrow> requestUploadUrl_task env ?sm)"
  have save: "snd (disturbed ?save vs) \<in> {[], [Pending]} \<and>
              (\<forall>response. fst (disturbed ?save vs) = Some (Inr response) \<longrightarrow>
                 snd (disturbed ?save vs) = [Pending])" for vs
  proof (cases vs)
    case Nil
    then show ?thesis by (simp add: disturbed_await)
  next
    case (Cons w rest)
    obtain a w' where s: "save (newDate env 2) (dbFails env 1) ?m w = (a, w')" by fastforce
    obtain r ss where d: "disturbed (requestUploadUrl_task env ?sm) rest = (r, ss)" by fastforce
    have ss: "ss = []" using disturbed_requestUploadUrl [of env ?sm rest] d by simp
    from saved_by_save [OF s] show ?thesis
      using Cons s d ss by (auto simp: disturbed_await)
  qed
  let ?delete = "await (storageCall (StorageDeleteFile fileId)
                         (sp_deleteFile (storageProvider env) fileId)) (\<lambda>answer. ?save)"
  have delete: "snd (disturbed ?delete vs) \<in> {[], [Pending]} \<and>
                (\<forall>response. fst (disturbed ?delete vs) = Some (Inr response) \<longrightarrow>
                   snd (disturbed ?delete vs) = [Pending])" for vs
  proof (cases vs)
    case Nil
    then show ?thesis by (simp add: disturbed_await)
  next
    case (Cons w rest)
    then show ?thesis
      using save [of rest]
      by (simp add: disturbed_await storageCall_def logCall_def newEvents_def
            split: prod.splits)
  qed
  show ?thesis
  proof (cases ws)
    case Nil
    then show ?thesis using Inr by (simp add: updateFile_task_def disturbed_await)
  next
    case (Cons w rest)
    obtain a w' where f: "findById (dbFails env 0) fileId w = (a, w')" by fastforce
    from saved_by_findById [OF f] have n: "savedStatuses (newEvents w w') = []" .
    show ?thesis
      using Inr Cons f n delete [of rest]
      by (auto simp: updateFile_task_def Let_def disturbed_await
            split: sum.splits option.splits prod.splits)
  qed
qed

lemma disturbed_completeUpload_finish:
  "snd (disturbed (completeUpload_finish_task env uploadId original mediaEntity) ws)
     \<in> {[], [Validated], [Invalid]} \<and>
   (\<forall>dto. fst (disturbed (completeUpload_finish_task env uploadId original mediaEntity) ws)
             = Some (Inr dto) \<longrightarrow>
      snd (disturbed (completeUpload_finish_task env uploadId original mediaEntity) ws)
        = [dto_status dto] \<and>
      (dto_status dto = Validated \<or> dto_status dto = Invalid)) \<and>
   (\<forall>e. fst (disturbed (completeUpload_finish_task env uploadId original mediaEntity) ws)
           = Some (Inl e) \<longrightarrow>
      snd (disturbed (completeUpload_finish_task env uploadId original mediaEntity) ws) = [])"
proof -
  define valid where
    "valid = (case sp_validateFileContent (storageProvider env) uploadId (me_mimeType original) of
                Inl e \<Rightarrow> False | Inr b \<Rightarrow> b)"
  let ?m1 = "mediaEntity\<lparr>me_status := (if valid then Validated else Invalid)\<rparr>"
  let ?url = "\<lambda>m2. await (storageCall (StorageGetDownloadUrl uploadId)
                           (sp_getDownloadUrl (storageProvider env) uploadId))
                     (\<lambda>answer.
                        let downloadUrl = (case answer of Inl e \<Rightarrow> None | Inr u \<Rightarrow> Some u)
                        in (Ended (Inr (StorageMapper_toFileMetadataDto m2 downloadUrl))
                            :: (error + FileMetadataDto) Task))"
  let ?save = "await (save (newDate env 2) (dbFails env 2) ?m1)
                 (\<lambda>saved. case saved of
                    Inl e \<Rightarrow> Ended (Inl e)
                  | Inr mediaEntity2 \<Rightarrow>
                      if me_status mediaEntity2 = Validated then ?url mediaEntity2
                      else Ended (Inr (StorageMapper_toFileMetadataDto mediaEntity2 None)))"
  have url: "snd (disturbed (?url m2) vs) = [] \<and>
             (\<forall>r. fst (disturbed (?url m2) vs) = Some r \<longrightarrow>
                (\<exists>dto. r = Inr dto \<and> dto_status dto = me_status m2))" for m2 vs
    by (cases vs)
       (auto simp: disturbed_await storageCall_def logCall_def newEvents_def Let_def
          StorageMapper_toFileMetadataDto_def)
  have save: "snd (disturbed ?save vs) \<in> {[], [Validated], [Invalid]} \<and>
              (\<forall>dto. fst (disturbed ?save vs) = Some (Inr dto) \<longrightarrow>
                 snd (disturbed ?save vs) = [dto_status dto] \<and>
                 (dto_status dto = Validated \<or> dto_status dto = Invalid)) \<and>
              (\<forall>e. fst (disturbed ?save vs) = Some (Inl e) \<longrightarrow> snd (disturbed ?save vs) = [])"
    for vs
  proof (cases vs)
    case Nil
    then show ?thesis by (simp add: disturbed_await)
  next
    case (Cons w rest)
    obtain a w' where s: "save (newDate env 2) (dbFails env 2) ?m1 w = (a, w')" by fastforce
    from saved_by_save [OF s] show ?thesis
    proof
      assume "\<exists>e. a = Inl e \<and> savedStatuses (newEvents w w') = []"
      then show ?thesis using Cons s by (auto simp: disturbed_await)
    next
      assume "\<exists>saved. a = Inr saved \<and> me_status saved = me_status ?m1 \<and>
                savedStatuses (newEvents w w') = [me_status ?m1]"
      then obtain saved where a: "a = Inr saved" and st: "me_status saved = me_status ?m1"
        and sv: "savedStatuses (newEvents w w') = [me_status ?m1]" by blast
      obtain r ss where d: "disturbed (?url saved) rest = (r, ss)" by fastforce
      from url [of saved rest] d have ss: "ss = []" by simp
      from url [of saved rest] d
      have r: "\<forall>x. r = Some x \<longrightarrow> (\<exists>dto. x = Inr dto \<and> dto_status dto = me_status saved)"
        by simp
      have step: "disturbed ?save vs =
                    (case disturbed
                            (if me_status saved = Validated then ?url saved
                             else Ended (Inr (StorageMapper_toFileMetadataDto saved None))) rest of
                       (r, statuses) \<Rightarrow> (r, me_status ?m1 # statuses))"
        using Cons s a sv by (simp add: await_def)
      show ?thesis
      proof (cases valid)
        case True
        with st have v: "me_status saved = Validated" by simp
        have "disturbed ?save vs = (r, [Validated])"
          unfolding step using v d ss True by simp
        then show ?thesis using r v by auto
      next
        case False
        with st have v: "me_status saved = Invalid" by simp
        have "disturbed ?save vs
              = (Some (Inr (StorageMapper_toFileMetadataDto saved None)), [Invalid])"
          unfolding step using v False by simp
        then show ?thesis using v by (simp add: StorageMapper_toFileMetadataDto_def)
      qed
    qed
  qed
  have "disturbed (completeUpload_finish_task env uploadId original mediaEntity) ws =
          (case ws of
             [] \<Rightarrow> (None, [])
           | w # rest \<Rightarrow> disturbed ?save rest)"
    by (cases ws)
       (simp_all add: completeUpload_finish_task_def disturbed_await storageCall_def logCall_def
          newEvents_def Let_def valid_def split: prod.splits)
  then show ?thesis using save by (cases ws) simp_all
qed

lemma disturbed_completeUpload_reconcile:
  "snd (disturbed (completeUpload_reconcile_task env uploadId original uploaded) ws)
     \<in> {[], [Uploaded], [Uploaded, Validated], [Uploaded, Invalid]} \<and>
   (\<forall>dto. fst (disturbed (completeUpload_reconcile_task env uploadId original uploaded) ws)
             = Some (Inr dto) \<longrightarrow>
      snd (disturbed (completeUpload_reconcile_task env uploadId original uploaded) ws)
        = [Uploaded, dto_status dto] \<and>
      (dto_status dto = Validated \<or> dto_status dto = Invalid)) \<and>
   (\<forall>e. fst (disturbed (completeUpload_reconcile_task env uploadId original uploaded) ws)
           = Some (Inl e) \<longrightarrow>
      snd (disturbed (completeUpload_reconcile_task env uploadId original uploaded) ws)
        \<in> {[], [Uploaded]})"
proof (cases "validateUploadedFile original uploaded")
  case (Inl e)
  then show ?thesis by (simp add: completeUpload_reconcile_task_def)
next
  case (Inr u)
  let ?m = "(toMediaEntityFromStorage (newDate env 0) uploaded)
              \<lparr>me_originalName := me_originalName original, me_status := Uploaded\<rparr>"
  show ?thesis
  proof (cases ws)
    case Nil
    then show ?thesis
      using Inr by (simp add: completeUpload_reconcile_task_def Let_def disturbed_await)
  next
    case (Cons w rest)
    obtain a w' where s: "save (newDate env 1) (dbFails env 1) ?m w = (a, w')" by fastforce
    from saved_by_save [OF s] show ?thesis
    proof
      assume "\<exists>e. a = Inl e \<and> savedStatuses (newEvents w w') = []"
      then show ?thesis
        using Inr Cons s by (auto simp: completeUpload_reconcile_task_def Let_def disturbed_await)
    next
      assume "\<exists>saved. a = Inr saved \<and> me_status saved = me_status ?m \<and>
                savedStatuses (newEvents w w') = [me_status ?m]"
      then obtain saved where a: "a = Inr saved"
        and sv: "savedStatuses (newEvents w w') = [Uploaded]" by auto
      obtain r ss
        where d: "disturbed (completeUpload_finish_task env uploadId original saved) rest
                  = (r, ss)" by fastforce
      from disturbed_completeUpload_finish [of env uploadId original saved rest] d
      show ?thesis
        using Inr Cons s a sv
        by (auto simp: completeUpload_reconcile_task_def Let_def disturbed_await)
    qed
  qed
qed

lemma disturbed_completeUpload:
  "snd (disturbed (completeUpload_task env uploadId) ws)
     \<in> {[], [Uploaded], [Uploaded, Validated], [Uploaded, Invalid]} \<and>
   (\<forall>dto. fst (disturbed (completeUpload_task env uploadId) ws) = Some (Inr dto) \<longrightarrow>
      snd (disturbed (completeUpload_task env uploadId) ws) = [Uploaded, dto_status dto] \<and>
      (dto_status dto = Validated \<or> dto_status dto = Invalid)) \<and>
   (\<forall>e. fst (disturbed (completeUpload_task env uploadId) ws) = Some (Inl e) \<longrightarrow>
      snd (disturbed (completeUpload_task env uploadId) ws) \<in> {[], [Uploaded]})"
proof -
  let ?P = "\<lambda>t. snd (disturbed t ws)
                   \<in> {[], [Uploaded], [Uploaded, Validated], [Uploaded, Invalid]} \<and>
                 (\<forall>dto. fst (disturbed t ws) = Some (Inr dto) \<longrightarrow>
                    snd (disturbed t ws) = [Uploaded, dto_status dto] \<and>
                    (dto_status dto = Validated \<or> dto_status dto = Invalid)) \<and>
                 (\<forall>e. fst (disturbed t ws) = Some (Inl e) \<longrightarrow>
                    snd (disturbed t ws) \<in> {[], [Uploaded]})"
  let ?metadata = "\<lambda>original.
        await (storageCall (StorageGetMetadata uploadId)
                (sp_getMetadata (storageProvider env) uploadId))
          (\<lambda>answer. case answer of
             Inl e \<Rightarrow> Ended (Inl StorageError)
           | Inr storageMetadata \<Rightarrow>
               completeUpload_reconcile_task env uploadId original storageMetadata)"
  let ?verify = "\<lambda>original.
        await (storageCall (StorageVerifyUpload uploadId)
                (sp_verifyUpload (storageProvider env) uploadId))
          (\<lambda>answer. case answer of
             Inl e \<Rightarrow> Ended (Inl (if e = NotFoundError then NotFoundError else StorageError))
           | Inr False \<Rightarrow> Ended (Inl NotFoundError)
           | Inr True \<Rightarrow> ?metadata original)"
  let ?Q = "\<lambda>t vs. snd (disturbed t vs)
                     \<in> {[], [Uploaded], [Uploaded, Validated], [Uploaded, Invalid]} \<and>
                   (\<forall>dto. fst (disturbed t vs) = Some (Inr dto) \<longrightarrow>
                      snd (disturbed t vs) = [Uploaded, dto_status dto] \<and>
                      (dto_status dto = Validated \<or> dto_status dto = Invalid)) \<and>
                   (\<forall>e. fst (disturbed t vs) = Some (Inl e) \<longrightarrow>
                      snd (disturbed t vs) \<in> {[], [Uploaded]})"
  have metadata: "?Q (?metadata original) vs" for original vs
  proof (cases vs)
    case Nil
    then show ?thesis by (simp add: disturbed_await)
  next
    case (Cons w rest)
    show ?thesis
    proof (cases "sp_getMetadata (storageProvider env) uploadId")
      case (Inl e)
      then show ?thesis
        using Cons by (simp add: disturbed_await storageCall_def logCall_def newEvents_def)
    next
      case (Inr uploaded)
      then show ?thesis
        using Cons disturbed_completeUpload_reconcile [of env uploadId original uploaded rest]
        by (simp add: disturbed_await storageCall_def logCall_def newEvents_def
              split: prod.splits)
    qed
  qed
  have verify: "?Q (?verify original) vs" for original vs
  proof (cases vs)
    case Nil
    then show ?thesis by (simp add: disturbed_await)
  next
    case (Cons w rest)
    show ?thesis
    proof (cases "sp_verifyUpload (storageProvider env) uploadId = Inr True")
      case True
      then show ?thesis
        using Cons metadata [of original rest]
        by (simp add: disturbed_await storageCall_def logCall_def newEvents_def
              split: prod.splits)
    next
      case False
      then show ?thesis
        using Cons
        by (auto simp: disturbed_await storageCall_def logCall_def newEvents_def
              split: sum.splits bool.splits)
    qed
  qed
  show ?thesis
  proof (cases ws)
    case Nil
    then show ?thesis by (simp add: completeUpload_task_def disturbed_await)
  next
    case (Cons w rest)
    obtain a w' where f: "findById (dbFails env 0) uploadId w = (a, w')" by fastforce
    from saved_by_findById [OF f] have n: "savedStatuses (newEvents w w') = []" .
    show ?thesis
    proof (cases a)
      case (Inl e)
      then show ?thesis using Cons f n by (simp add: completeUpload_task_def disturbed_await)
    next
      case (Inr found)
      show ?thesis
      proof (cases found)
        case None
        then show ?thesis
          using Cons f n Inr by (simp add: completeUpload_task_def disturbed_await)
      next
        case (Some original)
        then show ?thesis
          using Cons f n Inr verify [of original rest]
          by (simp add: completeUpload_task_def disturbed_await split: prod.splits)
      qed
    qed
  qed
qed

subsection \<open>Two completions that overlap\<close>

text \<open>
  A record is created, and two completions of it overlap: each makes its first save
  before the other makes its second. The statuses saved are \<open>pending\<close>, \<open>uploaded\<close>,
  \<open>uploaded\<close>, \<open>validated\<close>, \<open>validated\<close>: neither \<open>uploaded \<rightarrow> uploaded\<close> by way of two
  operations nor \<open>validated \<rightarrow> validated\<close> is a transition of operations made one after
  another.
\<close>

lemma overlapping_completeUpload_history:
  "statusHistory ''f1''
     (trace (snd (interleave [0, 0, 1, 1, 1, 1, 2, 2, 2, 2, 1, 1, 1, 2, 2, 2]
        (map (taskOf exampleConfig)
           [(exampleEnv (exampleStorage 1000 (Inr True) (Inr True)) 100,
             InitiateUpload (exampleRequest 1000)),
            (exampleEnv (exampleStorage 1000 (Inr True) (Inr True)) 200, CompleteUpload ''f1''),
            (exampleEnv (exampleStorage 1000 (Inr True) (Inr True)) 300, CompleteUpload ''f1'')])
        emptyWorld)))
   = [Pending, Uploaded, Uploaded, Validated, Validated] \<and>
   savedStatuses
     (trace (snd (interleave [0, 0, 1, 1, 1, 1, 2, 2, 2, 2, 1, 1, 1, 2, 2, 2]
        (map (taskOf exampleConfig)
           [(exampleEnv (exampleStorage 1000 (Inr True) (Inr True)) 100,
             InitiateUpload (exampleRequest 1000)),
            (exampleEnv (exampleStorage 1000 (Inr True) (Inr True)) 200, CompleteUpload ''f1''),
            (exampleEnv (exampleStorage 1000 (Inr True) (Inr True)) 300, CompleteUpload ''f1'')])
        emptyWorld)))
   = [Pending, Uploaded, Uploaded, Validated, Validated] \<and>
   \<not> successively engineTransition [Pending, Uploaded, Uploaded, Validated, Validated]"
  by (simp add: initiateUpload_task_def completeUpload_task_def completeUpload_reconcile_task_def
        completeUpload_finish_task_def requestUploadUrl_task_def await_def storageCall_def
        validateUploadRequest_def validateUploadedFile_same_size save_def findById_def
        logCall_def toMediaEntity_def toMediaEntityFromStorage_def toStorageMetadata_def
        toUploadResponseDto_def StorageMapper_toFileMetadataDto_def exampleConfig_def
        exampleEnv_def exampleStorage_def exampleRequest_def emptyWorld_def Let_def
        engineTransition_def)

section \<open>The statuses of a record\<close>

text \<open>
  A record is created, completed, and completed again (a repeated completion request):
  the second completion saves \<open>uploaded\<close> over \<open>validated\<close>.
\<close>

lemma repeated_completeUpload_history:
  "statusHistory ''f1''
     (trace (run exampleConfig
        [(exampleEnv (exampleStorage 1000 (Inr True) (Inr True)) 100,
          InitiateUpload (exampleRequest 1000)),
         (exampleEnv (exampleStorage 1000 (Inr True) (Inr True)) 200, CompleteUpload ''f1''),
         (exampleEnv (exampleStorage 1000 (Inr True) (Inr True)) 300, CompleteUpload ''f1'')]
        emptyWorld))
   = [Pending, Uploaded, Validated, Uploaded, Validated]"
  by (simp add: engine_defs)

lemma repeated_completeUpload_store:
  "\<exists>entity.
     db (run exampleConfig
        [(exampleEnv (exampleStorage 1000 (Inr True) (Inr True)) 100,
          InitiateUpload (exampleRequest 1000)),
         (exampleEnv (exampleStorage 1000 (Inr True) (Inr True)) 200, CompleteUpload ''f1''),
         (exampleEnv (exampleStorage 1000 (Inr True) (Inr True)) 300, CompleteUpload ''f1'')]
        emptyWorld) ''f1'' = Some entity"
  by (simp add: engine_defs)

text \<open>
  C8, as stated, fails: the statuses saved for a record do not always follow
  \<open>pending \<rightarrow> uploaded \<rightarrow> {validated, invalid}\<close> with any state \<open>\<rightarrow> pending\<close>, because
  \<open>completeUpload\<close> does not look at the status of the record it completes. In the run
  above \<open>uploaded\<close> follows \<open>validated\<close>.
\<close>

theorem repeated_completeUpload_leaves_validated:
  "\<not> successively specTransition
       (statusHistory ''f1''
          (trace (run exampleConfig
             [(exampleEnv (exampleStorage 1000 (Inr True) (Inr True)) 100,
               InitiateUpload (exampleRequest 1000)),
              (exampleEnv (exampleStorage 1000 (Inr True) (Inr True)) 200, CompleteUpload ''f1''),
              (exampleEnv (exampleStorage 1000 (Inr True) (Inr True)) 300, CompleteUpload ''f1'')]
             emptyWorld)))"
  by (simp add: engine_defs specTransition_def)

text \<open>
  C8, amended. No operation ever saves status \<open>failed\<close>, and no stored record has it,
  also when operations overlap. \<open>initiateUpload\<close> and \<open>updateFile\<close> save only status
  \<open>pending\<close> (once when they return, at most once when they raise an error), and
  \<open>completeUpload\<close> saves \<open>uploaded\<close> followed by exactly one of \<open>validated\<close> and \<open>invalid\<close>
  when it returns, and only \<open>uploaded\<close>, or nothing, when it raises an error; this holds
  of an operation made on its own and of one whose calls are made among those of others.
  When the operations are made one after another from the empty state, none starting
  before the one before it has ended, the statuses saved for a record follow the
  transitions \<open>pending \<rightarrow> uploaded \<rightarrow> {validated, invalid}\<close>, any state \<open>\<rightarrow> pending\<close>, and
  any state \<open>\<rightarrow> uploaded\<close> (by \<open>completeUpload\<close>), and the status of a stored record is the
  last one saved for it. (Operations that overlap need not follow these transitions:
  lemma \<open>overlapping_completeUpload_history\<close>.)
\<close>

theorem engine_status_transitions:
  "Failed \<notin> set (savedStatuses (trace (run cfg calls emptyWorld))) \<and>
   successively engineTransition (statusHistory ident (trace (run cfg calls emptyWorld))) \<and>
   (\<forall>entity. db (run cfg calls emptyWorld) ident = Some entity \<longrightarrow>
      me_status entity \<noteq> Failed \<and>
      statusHistory ident (trace (run cfg calls emptyWorld)) \<noteq> [] \<and>
      me_status entity = last (statusHistory ident (trace (run cfg calls emptyWorld)))) \<and>
   savedStatuses (newEvents w (snd (initiateUpload cfg env request w))) \<in> {[], [Pending]} \<and>
   savedStatuses (newEvents w (snd (updateFile cfg env fileId request w))) \<in> {[], [Pending]} \<and>
   savedStatuses (newEvents w (snd (completeUpload env uploadId w)))
     \<in> {[], [Uploaded], [Uploaded, Validated], [Uploaded, Invalid]} \<and>
   (\<forall>response w'. initiateUpload cfg env request w = (Inr response, w') \<longrightarrow>
      savedStatuses (newEvents w w') = [Pending]) \<and>
   (\<forall>response w'. updateFile cfg env fileId request w = (Inr response, w') \<longrightarrow>
      savedStatuses (newEvents w w') = [Pending]) \<and>
   (\<forall>dto w'. completeUpload env uploadId w = (Inr dto, w') \<longrightarrow>
      savedStatuses (newEvents w w') = [Uploaded, dto_status dto] \<and>
      (dto_status dto = Validated \<or> dto_status dto = Invalid)) \<and>
   (\<forall>e w'. completeUpload env uploadId w = (Inl e, w') \<longrightarrow>
      savedStatuses (newEvents w w') \<in> {[], [Uploaded]}) \<and>
   Failed \<notin> set (savedStatuses
                  (trace (snd (interleave schedule (map (taskOf cfg) calls) emptyWorld)))) \<and>
   (\<forall>entity. db (snd (interleave schedule (map (taskOf cfg) calls) emptyWorld)) ident
               = Some entity \<longrightarrow>
      me_status entity \<noteq> Failed) \<and>
   snd (disturbed (initiateUpload_task cfg env request) ws) \<in> {[], [Pending]} \<and>
   snd (disturbed (updateFile_task cfg env fileId request) ws) \<in> {[], [Pending]} \<and>
   snd (disturbed (completeUpload_task env uploadId) ws)
     \<in> {[], [Uploaded], [Uploaded, Validated], [Uploaded, Invalid]} \<and>
   (\<forall>response. fst (disturbed (initiateUpload_task cfg env request) ws)
                  = Some (Inr response) \<longrightarrow>
      snd (disturbed (initiateUpload_task cfg env request) ws) = [Pending]) \<and>
   (\<forall>response. fst (disturbed (updateFile_task cfg env fileId request) ws)
                  = Some (Inr response) \<longrightarrow>
      snd (disturbed (updateFile_task cfg env fileId request) ws) = [Pending]) \<and>
   (\<forall>dto. fst (disturbed (completeUpload_task env uploadId) ws) = Some (Inr dto) \<longrightarrow>
      snd (disturbed (completeUpload_task env uploadId) ws) = [Uploaded, dto_status dto] \<and>
      (dto_status dto = Validated \<or> dto_status dto = Invalid)) \<and>
   (\<forall>e. fst (disturbed (completeUpload_task env uploadId) ws) = Some (Inl e) \<longrightarrow>
      snd (disturbed (completeUpload_task env uploadId) ws) \<in> {[], [Uploaded]})"
proof -
  have "successively engineTransition (statusHistory ident (trace emptyWorld))"
    and "Failed \<notin> set (savedStatuses (trace emptyWorld))"
    by (simp_all add: emptyWorld_def)
  then have runs: "successively engineTransition
                     (statusHistory ident (trace (run cfg calls emptyWorld))) \<and>
                   Failed \<notin> set (savedStatuses (trace (run cfg calls emptyWorld)))"
    by (rule run_invariant)
  have "storeFollowsTrace emptyWorld" by (simp add: storeFollowsTrace_def emptyWorld_def)
  then have "storeFollowsTrace (run cfg calls emptyWorld)" by (rule sft_run)
  then have stored: "statusHistory ident (trace (run cfg calls emptyWorld)) \<noteq> [] \<and>
      me_status entity = last (statusHistory ident (trace (run cfg calls emptyWorld)))"
    if "db (run cfg calls emptyWorld) ident = Some entity" for entity
    using that by (simp add: storeFollowsTrace_def)
  have notFailed: "me_status entity \<noteq> Failed"
    if "db (run cfg calls emptyWorld) ident = Some entity" for entity
  proof -
    from stored [OF that]
    have "me_status entity \<in> set (statusHistory ident (trace (run cfg calls emptyWorld)))"
      by (metis last_in_set)
    then have "me_status entity \<in> set (savedStatuses (trace (run cfg calls emptyWorld)))"
      using statusHistory_subset by blast
    then show ?thesis using runs by auto
  qed
  from initiateUpload_trace [of cfg env request w ident]
  have i: "savedStatuses (newEvents w (snd (initiateUpload cfg env request w)))
           \<in> {[], [Pending]}"
    by (auto simp: newEvents_def)
  from updateFile_trace [of cfg env fileId request w ident]
  have u: "savedStatuses (newEvents w (snd (updateFile cfg env fileId request w)))
           \<in> {[], [Pending]}"
    by (auto simp: newEvents_def)
  from completeUpload_trace [of env uploadId w ident]
  have c: "savedStatuses (newEvents w (snd (completeUpload env uploadId w)))
           \<in> {[], [Uploaded], [Uploaded, Validated], [Uploaded, Invalid]}"
    by (auto simp: newEvents_def)
  from runs i u c stored notFailed initiateUpload_success updateFile_success
    completeUpload_success
  have returned: "Failed \<notin> set (savedStatuses (trace (run cfg calls emptyWorld))) \<and>
   successively engineTransition (statusHistory ident (trace (run cfg calls emptyWorld))) \<and>
   (\<forall>entity. db (run cfg calls emptyWorld) ident = Some entity \<longrightarrow>
      me_status entity \<noteq> Failed \<and>
      statusHistory ident (trace (run cfg calls emptyWorld)) \<noteq> [] \<and>
      me_status entity = last (statusHistory ident (trace (run cfg calls emptyWorld)))) \<and>
   savedStatuses (newEvents w (snd (initiateUpload cfg env request w))) \<in> {[], [Pending]} \<and>
   savedStatuses (newEvents w (snd (updateFile cfg env fileId request w))) \<in> {[], [Pending]} \<and>
   savedStatuses (newEvents w (snd (completeUpload env uploadId w)))
     \<in> {[], [Uploaded], [Uploaded, Validated], [Uploaded, Invalid]} \<and>
   (\<forall>response w'. initiateUpload cfg env request w = (Inr response, w') \<longrightarrow>
      savedStatuses (newEvents w w') = [Pending]) \<and>
   (\<forall>response w'. updateFile cfg env fileId request w = (Inr response, w') \<longrightarrow>
      savedStatuses (newEvents w w') = [Pending]) \<and>
   (\<forall>dto w'. completeUpload env uploadId w = (Inr dto, w') \<longrightarrow>
      savedStatuses (newEvents w w') = [Uploaded, dto_status dto] \<and>
      (dto_status dto = Validated \<or> dto_status dto = Invalid))"
    by blast
  have raised: "\<forall>e w'. completeUpload env uploadId w = (Inl e, w') \<longrightarrow>
      savedStatuses (newEvents w w') \<in> {[], [Uploaded]}"
    using completeUpload_failure by blast
  let ?w = "snd (interleave schedule (map (taskOf cfg) calls) emptyWorld)"
  have "\<forall>t \<in> set (map (taskOf cfg) calls). safe t" by (simp add: safe_taskOf)
  moreover have "Failed \<notin> set (savedStatuses (trace emptyWorld))" by (simp add: emptyWorld_def)
  ultimately have over: "Failed \<notin> set (savedStatuses (trace ?w)) \<and> storeFollowsTrace ?w"
    using \<open>storeFollowsTrace emptyWorld\<close> by (rule interleave_safe)
  then have overlapping: "Failed \<notin> set (savedStatuses (trace ?w))" by simp
  have overlappingStore: "\<forall>entity. db ?w ident = Some entity \<longrightarrow> me_status entity \<noteq> Failed"
  proof (intro allI impI)
    fix entity
    assume "db ?w ident = Some entity"
    with over have "statusHistory ident (trace ?w) \<noteq> [] \<and>
                    me_status entity = last (statusHistory ident (trace ?w))"
      by (simp add: storeFollowsTrace_def)
    then have "me_status entity \<in> set (statusHistory ident (trace ?w))"
      by (metis last_in_set)
    then have "me_status entity \<in> set (savedStatuses (trace ?w))"
      using statusHistory_subset by blast
    then show "me_status entity \<noteq> Failed" using over by auto
  qed
  note di = disturbed_initiateUpload [of cfg env request ws]
  note du = disturbed_updateFile [of cfg env fileId request ws]
  note dc = disturbed_completeUpload [of env uploadId ws]
  from di have d1: "snd (disturbed (initiateUpload_task cfg env request) ws) \<in> {[], [Pending]}"
    by (rule conjunct1)
  from du have d2: "snd (disturbed (updateFile_task cfg env fileId request) ws) \<in> {[], [Pending]}"
    by (rule conjunct1)
  from dc have d3: "snd (disturbed (completeUpload_task env uploadId) ws)
                    \<in> {[], [Uploaded], [Uploaded, Validated], [Uploaded, Invalid]}"
    by (rule conjunct1)
  from di have d4: "\<forall>response. fst (disturbed (initiateUpload_task cfg env request) ws)
                                 = Some (Inr response) \<longrightarrow>
                      snd (disturbed (initiateUpload_task cfg env request) ws) = [Pending]"
    by (rule conjunct2)
  from du have d5: "\<forall>response. fst (disturbed (updateFile_task cfg env fileId request) ws)
                                 = Some (Inr response) \<longrightarrow>
                      snd (disturbed (updateFile_task cfg env fileId request) ws) = [Pending]"
    by (rule conjunct2)
  from dc have d6: "\<forall>dto. fst (disturbed (completeUpload_task env uploadId) ws)
                            = Some (Inr dto) \<longrightarrow>
                      snd (disturbed (completeUpload_task env uploadId) ws)
                        = [Uploaded, dto_status dto] \<and>
                      (dto_status dto = Validated \<or> dto_status dto = Invalid)"
    by blast
  from dc have d7: "\<forall>e. fst (disturbed (completeUpload_task env uploadId) ws) = Some (Inl e) \<longrightarrow>
                      snd (disturbed (completeUpload_task env uploadId) ws) \<in> {[], [Uploaded]}"
    by blast
  from returned raised overlapping overlappingStore d1 d2 d3 d4 d5 d6 d7
  show ?thesis by (intro conjI) (elim conjE, assumption)+
qed

lemma example_operations_return:
  "\<exists>response w'.
     initiateUpload exampleConfig (exampleEnv (exampleStorage 1000 (Inr True) (Inr True)) 200)
       (exampleRequest 1000) (pendingWorld 1000) = (Inr response, w')"
  "\<exists>response w'.
     updateFile exampleConfig (exampleEnv (exampleStorage 1000 (Inr True) (Inr True)) 200)
       ''f1'' (exampleRequest 1000) (pendingWorld 1000) = (Inr response, w')"
  "\<exists>dto w'.
     completeUpload (exampleEnv (exampleStorage 1000 (Inr True) (Inr True)) 200) ''f1''
       (pendingWorld 1000) = (Inr dto, w') \<and> dto_status dto = Validated"
  by (simp_all add: engine_defs updateFile_def pendingWorld_def)

lemma example_completeUpload_raises:
  "\<exists>w'.
     completeUpload
       ((exampleEnv (exampleStorage 1000 (Inr True) (Inr True)) 200)\<lparr>dbFails := (\<lambda>k. k = 2)\<rparr>)
       ''f1'' (pendingWorld 1000) = (Inl DatabaseError, w') \<and>
     savedStatuses (newEvents (pendingWorld 1000) w') = [Uploaded]"
  by (simp add: engine_defs pendingWorld_def newEvents_def)

text \<open>
  A completion whose record is deleted by another operation after it has been found:
  the completion still saves \<open>uploaded\<close> and \<open>validated\<close>, and returns.
\<close>

lemma example_completeUpload_disturbed:
  "\<exists>dto.
     disturbed (completeUpload_task (exampleEnv (exampleStorage 1000 (Inr True) (Inr True)) 200)
                  ''f1'')
       [pendingWorld 1000, emptyWorld, emptyWorld, emptyWorld, emptyWorld, emptyWorld, emptyWorld]
     = (Some (Inr dto), [Uploaded, Validated]) \<and> dto_status dto = Validated"
  by (simp add: completeUpload_task_def completeUpload_reconcile_task_def
        completeUpload_finish_task_def await_def storageCall_def newEvents_def
        validateUploadedFile_same_size save_def findById_def logCall_def toMediaEntity_def
        toMediaEntityFromStorage_def StorageMapper_toFileMetadataDto_def exampleEnv_def
        exampleStorage_def exampleRequest_def emptyWorld_def pendingWorld_def Let_def)

text \<open>
  The run of the repeated completion, each of the three operations returning on the
  state with one pending record, a completion whose second save fails, two completions
  that overlap, and a completion whose record is deleted meanwhile.
\<close>

theorem engine_status_transitions_witness:
  "successively engineTransition [Pending, Uploaded, Validated, Uploaded, Validated] \<and>
   (\<exists>entity.
      db (run exampleConfig
        [(exampleEnv (exampleStorage 1000 (Inr True) (Inr True)) 100,
          InitiateUpload (exampleRequest 1000)),
         (exampleEnv (exampleStorage 1000 (Inr True) (Inr True)) 200, CompleteUpload ''f1''),
         (exampleEnv (exampleStorage 1000 (Inr True) (Inr True)) 300, CompleteUpload ''f1'')]
        emptyWorld) ''f1'' = Some entity \<and> me_status entity = Validated) \<and>
   (\<exists>response w'.
      initiateUpload exampleConfig (exampleEnv (exampleStorage 1000 (Inr True) (Inr True)) 200)
        (exampleRequest 1000) (pendingWorld 1000) = (Inr response, w') \<and>
      savedStatuses (newEvents (pendingWorld 1000) w') = [Pending]) \<and>
   (\<exists>response w'.
      updateFile exampleConfig (exampleEnv (exampleStorage 1000 (Inr True) (Inr True)) 200)
        ''f1'' (exampleRequest 1000) (pendingWorld 1000) = (Inr response, w') \<and>
      savedStatuses (newEvents (pendingWorld 1000) w') = [Pending]) \<and>
   (\<exists>dto w'.
      completeUpload (exampleEnv (exampleStorage 1000 (Inr True) (Inr True)) 200) ''f1''
        (pendingWorld 1000) = (Inr dto, w') \<and>
      savedStatuses (newEvents (pendingWorld 1000) w') = [Uploaded, Validated]) \<and>
   (\<exists>w'.
      completeUpload
        ((exampleEnv (exampleStorage 1000 (Inr True) (Inr True)) 200)\<lparr>dbFails := (\<lambda>k. k = 2)\<rparr>)
        ''f1'' (pendingWorld 1000) = (Inl DatabaseError, w') \<and>
      savedStatuses (newEvents (pendingWorld 1000) w') \<in> {[], [Uploaded]} \<and>
      savedStatuses (newEvents (pendingWorld 1000) w') = [Uploaded]) \<and>
   Failed \<notin> set [Pending, Uploaded, Uploaded, Validated, Validated] \<and>
   savedStatuses
     (trace (snd (interleave [0, 0, 1, 1, 1, 1, 2, 2, 2, 2, 1, 1, 1, 2, 2, 2]
        (map (taskOf exampleConfig)
           [(exampleEnv (exampleStorage 1000 (Inr True) (Inr True)) 100,
             InitiateUpload (exampleRequest 1000)),
            (exampleEnv (exampleStorage 1000 (Inr True) (Inr True)) 200, CompleteUpload ''f1''),
            (exampleEnv (exampleStorage 1000 (Inr True) (Inr True)) 300, CompleteUpload ''f1'')])
        emptyWorld)))
     = [Pending, Uploaded, Uploaded, Validated, Validated] \<and>
   (\<exists>dto.
      disturbed (completeUpload_task (exampleEnv (exampleStorage 1000 (Inr True) (Inr True)) 200)
                   ''f1'')
        [pendingWorld 1000, emptyWorld, emptyWorld, emptyWorld, emptyWorld, emptyWorld, emptyWorld]
      = (Some (Inr dto), [Uploaded, dto_status dto]) \<and> dto_status dto = Validated)"
proof -
  let ?env = "exampleEnv (exampleStorage 1000 (Inr True) (Inr True)) 200"
  let ?calls = "[(exampleEnv (exampleStorage 1000 (Inr True) (Inr True)) 100,
                  InitiateUpload (exampleRequest 1000)),
                 (exampleEnv (exampleStorage 1000 (Inr True) (Inr True)) 200,
                  CompleteUpload ''f1''),
                 (exampleEnv (exampleStorage 1000 (Inr True) (Inr True)) 300,
                  CompleteUpload ''f1'')]"
  let ?schedule = "[0, 0, 1, 1, 1, 1, 2, 2, 2, 2, 1, 1, 1, 2, 2, 2] :: nat list"
  let ?ws = "[pendingWorld 1000, emptyWorld, emptyWorld, emptyWorld, emptyWorld, emptyWorld,
              emptyWorld]"
  let ?w = "pendingWorld 1000"
  note t = engine_status_transitions
             [of exampleConfig ?calls "''f1''" ?w ?env "exampleRequest 1000"
                 "''f1''" "''f1''" ?schedule ?ws]
  from t
  have t2: "successively engineTransition
              (statusHistory ''f1'' (trace (run exampleConfig ?calls emptyWorld)))"
    by (elim conjE)
  from t
  have t3: "\<forall>entity. db (run exampleConfig ?calls emptyWorld) ''f1'' = Some entity \<longrightarrow>
              me_status entity \<noteq> Failed \<and>
              statusHistory ''f1'' (trace (run exampleConfig ?calls emptyWorld)) \<noteq> [] \<and>
              me_status entity
                = last (statusHistory ''f1'' (trace (run exampleConfig ?calls emptyWorld)))"
    by (elim conjE)
  from t
  have t7: "\<forall>response w'.
              initiateUpload exampleConfig ?env (exampleRequest 1000) ?w = (Inr response, w') \<longrightarrow>
              savedStatuses (newEvents ?w w') = [Pending]"
    by (elim conjE)
  from t
  have t8: "\<forall>response w'.
              updateFile exampleConfig ?env ''f1'' (exampleRequest 1000) ?w
                = (Inr response, w') \<longrightarrow>
              savedStatuses (newEvents ?w w') = [Pending]"
    by (elim conjE)
  from t
  have t9: "\<forall>dto w'. completeUpload ?env ''f1'' ?w = (Inr dto, w') \<longrightarrow>
              savedStatuses (newEvents ?w w') = [Uploaded, dto_status dto] \<and>
              (dto_status dto = Validated \<or> dto_status dto = Invalid)"
    by (elim conjE)
  from engine_status_transitions
         [of exampleConfig ?calls "''f1''" ?w "?env\<lparr>dbFails := (\<lambda>k. k = 2)\<rparr>"
             "exampleRequest 1000" "''f1''" "''f1''" ?schedule ?ws]
  have t10: "\<forall>e w'. completeUpload (?env\<lparr>dbFails := (\<lambda>k. k = 2)\<rparr>) ''f1'' ?w = (Inl e, w') \<longrightarrow>
               savedStatuses (newEvents ?w w') \<in> {[], [Uploaded]}"
    by (elim conjE)
  from t
  have t11: "Failed \<notin> set (savedStatuses
               (trace (snd (interleave ?schedule (map (taskOf exampleConfig) ?calls)
                              emptyWorld))))"
    by (elim conjE)
  from t
  have t18: "\<forall>dto. fst (disturbed (completeUpload_task ?env ''f1'') ?ws) = Some (Inr dto) \<longrightarrow>
               snd (disturbed (completeUpload_task ?env ''f1'') ?ws) = [Uploaded, dto_status dto] \<and>
               (dto_status dto = Validated \<or> dto_status dto = Invalid)"
    by (elim conjE)
  have c1: "successively engineTransition [Pending, Uploaded, Validated, Uploaded, Validated]"
    using t2 by (simp only: repeated_completeUpload_history)
  from repeated_completeUpload_store obtain entity
    where e: "db (run exampleConfig ?calls emptyWorld) ''f1'' = Some entity" by blast
  with t3 have "me_status entity
                = last (statusHistory ''f1'' (trace (run exampleConfig ?calls emptyWorld)))"
    by blast
  then have "me_status entity = Validated"
    by (simp only: repeated_completeUpload_history) simp
  with e have c2: "\<exists>entity. db (run exampleConfig ?calls emptyWorld) ''f1'' = Some entity \<and>
                            me_status entity = Validated"
    by blast
  from example_operations_return(1) obtain response1 w1
    where "initiateUpload exampleConfig ?env (exampleRequest 1000) ?w = (Inr response1, w1)"
    by blast
  with t7 have c3: "\<exists>response w'.
          initiateUpload exampleConfig ?env (exampleRequest 1000) ?w = (Inr response, w') \<and>
          savedStatuses (newEvents ?w w') = [Pending]"
    by blast
  from example_operations_return(2) obtain response2 w2
    where "updateFile exampleConfig ?env ''f1'' (exampleRequest 1000) ?w = (Inr response2, w2)"
    by blast
  with t8 have c4: "\<exists>response w'.
          updateFile exampleConfig ?env ''f1'' (exampleRequest 1000) ?w = (Inr response, w') \<and>
          savedStatuses (newEvents ?w w') = [Pending]"
    by blast
  from example_operations_return(3) obtain dto3 w3
    where r3: "completeUpload ?env ''f1'' ?w = (Inr dto3, w3)" and "dto_status dto3 = Validated"
    by blast
  with t9 have "savedStatuses (newEvents ?w w3) = [Uploaded, Validated]" by simp
  with r3 have c5: "\<exists>dto w'.
          completeUpload ?env ''f1'' ?w = (Inr dto, w') \<and>
          savedStatuses (newEvents ?w w') = [Uploaded, Validated]"
    by blast
  from example_completeUpload_raises obtain w4
    where r4: "completeUpload (?env\<lparr>dbFails := (\<lambda>k. k = 2)\<rparr>) ''f1'' ?w = (Inl DatabaseError, w4)"
      and s4: "savedStatuses (newEvents ?w w4) = [Uploaded]"
    by blast
  from t10 r4 have "savedStatuses (newEvents ?w w4) \<in> {[], [Uploaded]}" by blast
  with r4 s4 have c6: "\<exists>w'.
          completeUpload (?env\<lparr>dbFails := (\<lambda>k. k = 2)\<rparr>) ''f1'' ?w = (Inl DatabaseError, w') \<and>
          savedStatuses (newEvents ?w w') \<in> {[], [Uploaded]} \<and>
          savedStatuses (newEvents ?w w') = [Uploaded]"
    by blast
  have c8: "savedStatuses (trace (snd (interleave ?schedule (map (taskOf exampleConfig) ?calls)
                                         emptyWorld)))
            = [Pending, Uploaded, Uploaded, Validated, Validated]"
    using overlapping_completeUpload_history by (rule conjunct2 [THEN conjunct1])
  have c7: "Failed \<notin> set [Pending, Uploaded, Uploaded, Validated, Validated]"
    using t11 unfolding c8 .
  from example_completeUpload_disturbed obtain dto5
    where d5: "disturbed (completeUpload_task ?env ''f1'') ?ws
               = (Some (Inr dto5), [Uploaded, Validated])"
      and v5: "dto_status dto5 = Validated"
    by blast
  from d5 have "fst (disturbed (completeUpload_task ?env ''f1'') ?ws) = Some (Inr dto5)"
    by (simp only: fst_conv)
  with t18 have "snd (disturbed (completeUpload_task ?env ''f1'') ?ws)
                 = [Uploaded, dto_status dto5]"
    by blast
  with d5 v5 have "disturbed (completeUpload_task ?env ''f1'') ?ws
                   = (Some (Inr dto5), [Uploaded, dto_status dto5]) \<and>
                   dto_status dto5 = Validated"
    by (simp only: snd_conv)
  then have c9: "\<exists>dto. disturbed (completeUpload_task ?env ''f1'') ?ws
                         = (Some (Inr dto), [Uploaded, dto_status dto]) \<and>
                       dto_status dto = Validated"
    by (rule exI)
  show ?thesis by (intro conjI c1 c2 c3 c4 c5 c6 c7 c8 c9)
qed

section \<open>Timestamps\<close>

text \<open>
  A save that succeeds stores the entity with \<open>updatedAt\<close> set to the time of the save,
  and with its own \<open>createdAt\<close> when it has one, the time of the save otherwise: the
  \<open>createdAt\<close> already in the store is not consulted.
\<close>

lemma save_timestamps:
  "\<not> fails \<Longrightarrow>
   db (snd (save now fails entity w)) (me_id entity) =
     Some (entity\<lparr>me_createdAt :=
                     (case me_createdAt entity of None \<Rightarrow> Some now | Some c \<Rightarrow> Some c),
                   me_updatedAt := Some now\<rparr>)"
  by (simp add: save_def Let_def logCall_def)

text \<open>
  After a successful \<open>completeUpload\<close> the stored \<open>createdAt\<close> is the time of its first
  save, whatever the record held before, since the entity built from the storage metadata
  has no \<open>createdAt\<close>.
\<close>

lemma completeUpload_createdAt:
  assumes "\<not> dbFails env 0"
    and "db w uploadId = Some original"
    and "sp_verifyUpload (storageProvider env) uploadId = Inr True"
    and "sp_getMetadata (storageProvider env) uploadId = Inr uploaded"
    and "validateUploadedFile original uploaded = Inr ()"
    and "\<not> dbFails env 1"
    and "\<not> dbFails env 2"
  shows "\<exists>entity. db (snd (completeUpload env uploadId w)) (sm_id uploaded) = Some entity \<and>
           me_createdAt entity = Some (newDate env 1) \<and>
           me_updatedAt entity = Some (newDate env 2)"
  using assms
  by (simp add: completeUpload_def completeUpload_reconcile_def completeUpload_finish_def
        findById_def save_def logCall_def Let_def toMediaEntityFromStorage_def)

text \<open>
  C9. The specification has \<open>createdAt\<close> set once, at creation, and never changed by a
  later save, with \<open>updatedAt\<close> set by every save. The code does not keep \<open>createdAt\<close>:
  a record created at time 100 by \<open>initiateUpload\<close> has \<open>createdAt = 100\<close>, and after
  \<open>completeUpload\<close> at time 200 the stored record has \<open>createdAt = 201\<close>, the time of the
  first save of \<open>completeUpload\<close>. (\<open>updatedAt\<close> is indeed set by every save.)
\<close>

theorem completeUpload_resets_createdAt:
  "map_option me_createdAt
     (db (run exampleConfig
            [(exampleEnv (exampleStorage 1000 (Inr True) (Inr True)) 100,
              InitiateUpload (exampleRequest 1000))]
            emptyWorld) ''f1'') = Some (Some 100) \<and>
   map_option me_createdAt
     (db (run exampleConfig
            [(exampleEnv (exampleStorage 1000 (Inr True) (Inr True)) 100,
              InitiateUpload (exampleRequest 1000)),
             (exampleEnv (exampleStorage 1000 (Inr True) (Inr True)) 200, CompleteUpload ''f1'')]
            emptyWorld) ''f1'') = Some (Some 201)"
  by (simp add: engine_defs)


end
